theory Spec2Isabelle
  imports Main
begin

section \<open>The C++ fragment that \<^verbatim>\<open>util/macros.h\<close> is written in\<close>

text \<open>
  The header defines three function-like macros and nothing else:
  \<^verbatim>\<open>
  #define ZN_ARRAY_LENGTH(a) (sizeof(a) / sizeof(a[0]))
  #if defined(__GNUC__)
  #define ZN_LIKELY(x) __builtin_expect(!!(x), 1)
  #define ZN_UNLIKELY(x) __builtin_expect(!!(x), 0)
  #else
  #define ZN_LIKELY(x) x
  #define ZN_UNLIKELY(x) x
  #endif
  \<close>
  A macro is a replacement list: the preprocessor pastes the tokens of the argument
  where the parameter stands, and the compiler parses, types and evaluates the result.
  The theory gives the macros in both forms, as the replacement lists of the header and
  as the functions on expression trees that these lists amount to where the argument
  stays one operand.  What an expansion computes is decided by the language: this
  section gives the static types, the object sizes and the evaluation of exactly the
  operators the header uses (\<^verbatim>\<open>sizeof\<close>, \<^verbatim>\<open>/\<close>, \<^verbatim>\<open>[]\<close>, \<^verbatim>\<open>!\<close>,
  \<^verbatim>\<open>__builtin_expect\<close>, parentheses, literals) together with the leaves a macro
  argument is built from (variables, and calls of functions with arbitrary effects).
\<close>

subsection \<open>Object types and their sizes\<close>

type_synonym name = string

datatype ctype =
    TBool | TChar | TShort | TInt | TLong | TLongLong | TSizeT
  | TFloat | TDouble
  | TPtr ctype
  | TArray ctype nat
  | TClass name

text \<open>
  The header does not fix the platform, so the sizes are a parameter.  A class type is
  known by its size and, when it overloads \<^verbatim>\<open>operator[]\<close>, by the type that operator
  yields.
\<close>

record abi =
  char_bit :: nat
  sizeof_bool :: nat
  sizeof_short :: nat
  sizeof_int :: nat
  sizeof_long :: nat
  sizeof_long_long :: nat
  sizeof_size_t :: nat
  sizeof_float :: nat
  sizeof_double :: nat
  sizeof_pointer :: nat
  classes :: "(name \<times> nat \<times> ctype option) list"

definition class_size :: "abi \<Rightarrow> name \<Rightarrow> nat option" where
  "class_size p c = map_option fst (map_of (classes p) c)"

definition class_subscript :: "abi \<Rightarrow> name \<Rightarrow> ctype option" where
  "class_subscript p c = (case map_of (classes p) c of None \<Rightarrow> None | Some (k, r) \<Rightarrow> r)"

text \<open>\<^verbatim>\<open>sizeof\<close> of a type, in bytes; \<^verbatim>\<open>sizeof(char)\<close> is 1 by definition.\<close>

fun sizeof :: "abi \<Rightarrow> ctype \<Rightarrow> nat" where
  "sizeof p TBool = sizeof_bool p"
| "sizeof p TChar = 1"
| "sizeof p TShort = sizeof_short p"
| "sizeof p TInt = sizeof_int p"
| "sizeof p TLong = sizeof_long p"
| "sizeof p TLongLong = sizeof_long_long p"
| "sizeof p TSizeT = sizeof_size_t p"
| "sizeof p TFloat = sizeof_float p"
| "sizeof p TDouble = sizeof_double p"
| "sizeof p (TPtr t) = sizeof_pointer p"
| "sizeof p (TArray t n) = n * sizeof p t"
| "sizeof p (TClass c) = (case class_size p c of None \<Rightarrow> 0 | Some k \<Rightarrow> k)"

definition size_t_bits :: "abi \<Rightarrow> nat" where
  "size_t_bits p = char_bit p * sizeof_size_t p"

definition long_bits :: "abi \<Rightarrow> nat" where
  "long_bits p = char_bit p * sizeof_long p"

definition int_bits :: "abi \<Rightarrow> nat" where
  "int_bits p = char_bit p * sizeof_int p"

definition long_long_bits :: "abi \<Rightarrow> nat" where
  "long_long_bits p = char_bit p * sizeof_long_long p"

text \<open>
  A complete object type the compiler accepts: an array has at least one element, a
  complete element type and a size that \<^verbatim>\<open>size_t\<close> can hold; a class type is complete
  when it is defined.
\<close>

fun complete :: "abi \<Rightarrow> ctype \<Rightarrow> bool" where
  "complete p (TArray t n) = (complete p t \<and> 1 \<le> n \<and> n * sizeof p t < 2 ^ size_t_bits p)"
| "complete p (TClass c) = (class_size p c \<noteq> None)"
| "complete p t = True"

definition fits_size_t :: "abi \<Rightarrow> nat \<Rightarrow> bool" where
  "fits_size_t p k = (1 \<le> k \<and> k < 2 ^ size_t_bits p)"

definition wf_class :: "abi \<Rightarrow> name \<times> nat \<times> ctype option \<Rightarrow> bool" where
  "wf_class p d = (case d of (c, k, r) \<Rightarrow>
     fits_size_t p k \<and> (case r of None \<Rightarrow> True | Some t \<Rightarrow> complete p t))"

text \<open>
  What the language guarantees of every platform: bytes of at least 8 bits, and every
  object type with a size of at least one byte that \<^verbatim>\<open>size_t\<close> can hold.
\<close>

definition wf_abi :: "abi \<Rightarrow> bool" where
  "wf_abi p =
    (8 \<le> char_bit p
     \<and> fits_size_t p 1
     \<and> fits_size_t p (sizeof_bool p)
     \<and> fits_size_t p (sizeof_short p)
     \<and> fits_size_t p (sizeof_int p)
     \<and> fits_size_t p (sizeof_long p)
     \<and> fits_size_t p (sizeof_long_long p)
     \<and> fits_size_t p (sizeof_size_t p)
     \<and> fits_size_t p (sizeof_float p)
     \<and> fits_size_t p (sizeof_double p)
     \<and> fits_size_t p (sizeof_pointer p)
     \<and> list_all (wf_class p) (classes p))"

definition integral :: "ctype \<Rightarrow> bool" where
  "integral t = (t \<in> {TBool, TChar, TShort, TInt, TLong, TLongLong, TSizeT})"

fun is_pointer :: "ctype \<Rightarrow> bool" where
  "is_pointer (TPtr t) = True"
| "is_pointer t = False"

fun is_array :: "ctype \<Rightarrow> bool" where
  "is_array (TArray t n) = True"
| "is_array t = False"

definition scalar :: "ctype \<Rightarrow> bool" where
  "scalar t = (integral t \<or> t = TFloat \<or> t = TDouble \<or> is_pointer t)"

text \<open>
  Array-to-pointer conversion, which is also the adjustment of a parameter declared with
  an array type: the length is dropped from the type.
\<close>

fun decay :: "ctype \<Rightarrow> ctype" where
  "decay (TArray t n) = TPtr t"
| "decay t = t"

subsection \<open>Expressions and statements\<close>

datatype expr =
    Var name
  | BoolLit bool
  | IntLit nat
  | Call name
  | Paren expr
  | Not expr
  | Index expr expr
  | SizeofE expr
  | Div expr expr
  | BuiltinExpect expr expr

datatype stmt =
    Skip
  | ExprStmt expr
  | Return expr
  | If expr stmt stmt
  | Seq stmt stmt

datatype error =
    Undeclared name
  | Incomplete ctype
  | NotSubscriptable ctype
  | BadOperand ctype
  | BadLiteral nat
  | Unmodelled
  | DivisionByZero
  | OutOfBounds
  | NullPointer

subsection \<open>Static types\<close>

record static_env =
  platform :: abi
  var_types :: "name \<rightharpoonup> ctype"
  ret_types :: "name \<rightharpoonup> ctype"

definition declared :: "abi \<Rightarrow> name \<Rightarrow> ctype option \<Rightarrow> error + ctype" where
  "declared p x d = (case d of
       None \<Rightarrow> Inl (Undeclared x)
     | Some t \<Rightarrow> if complete p t then Inr t else Inl (Incomplete t))"

text \<open>An unsuffixed decimal literal has the first of int, long, long long that holds it.\<close>

definition literal_type :: "abi \<Rightarrow> nat \<Rightarrow> error + ctype" where
  "literal_type p n =
    (if 2 * n < 2 ^ int_bits p then Inr TInt
     else if 2 * n < 2 ^ long_bits p then Inr TLong
     else if 2 * n < 2 ^ long_long_bits p then Inr TLongLong
     else Inl (BadLiteral n))"

text \<open>
  The type of \<^verbatim>\<open>a[i]\<close> from the type of \<^verbatim>\<open>a\<close>: the element of an array, the pointee
  of a pointer to a complete type, the result of an overloaded \<^verbatim>\<open>operator[]\<close>; any
  other operand is rejected by the compiler.
\<close>

fun subscript_type :: "abi \<Rightarrow> ctype \<Rightarrow> error + ctype" where
  "subscript_type p (TArray t n) = Inr t"
| "subscript_type p (TPtr t) = (if complete p t then Inr t else Inl (Incomplete t))"
| "subscript_type p (TClass c) =
     (case class_subscript p c of None \<Rightarrow> Inl (NotSubscriptable (TClass c)) | Some t \<Rightarrow> Inr t)"
| "subscript_type p t = Inl (NotSubscriptable t)"

text \<open>
  The type of a quotient.  Division is typed where the usual arithmetic conversions keep
  the values of the operands: for operands of type \<^verbatim>\<open>size_t\<close> or \<^verbatim>\<open>bool\<close>.  A
  \<^verbatim>\<open>bool\<close> is promoted to the \<^verbatim>\<open>int\<close> 0 or 1; beside a \<^verbatim>\<open>size_t\<close>, which is
  \<^verbatim>\<open>unsigned int\<close>, \<^verbatim>\<open>unsigned long\<close> or \<^verbatim>\<open>unsigned long long\<close>, the common type
  is \<^verbatim>\<open>size_t\<close>.  Other operand types are outside the fragment.
\<close>

definition division_type :: "ctype \<Rightarrow> ctype \<Rightarrow> error + ctype" where
  "division_type t1 t2 =
     (if t1 \<in> {TBool, TSizeT} \<and> t2 \<in> {TBool, TSizeT}
      then Inr (if t1 = TSizeT \<or> t2 = TSizeT then TSizeT else TInt)
      else Inl Unmodelled)"

text \<open>
  The static type of an expression, or the reason the compiler rejects it.
  \<^verbatim>\<open>__builtin_expect\<close> is typed for integral operands; other operand types are
  outside the fragment and reported as \<open>Unmodelled\<close>.
\<close>

fun typeof :: "static_env \<Rightarrow> expr \<Rightarrow> error + ctype" where
  "typeof G (Var x) = declared (platform G) x (var_types G x)"
| "typeof G (BoolLit b) = Inr TBool"
| "typeof G (IntLit n) = literal_type (platform G) n"
| "typeof G (Call f) = declared (platform G) f (ret_types G f)"
| "typeof G (Paren e) = typeof G e"
| "typeof G (Not e) =
     (case typeof G e of
        Inl err \<Rightarrow> Inl err
      | Inr t \<Rightarrow> if scalar t \<or> is_array t then Inr TBool else Inl Unmodelled)"
| "typeof G (Index a i) =
     (case typeof G a of
        Inl err \<Rightarrow> Inl err
      | Inr ta \<Rightarrow>
         (case typeof G i of
            Inl err \<Rightarrow> Inl err
          | Inr ti \<Rightarrow> if integral ti then subscript_type (platform G) ta else Inl (BadOperand ti)))"
| "typeof G (SizeofE e) =
     (case typeof G e of Inl err \<Rightarrow> Inl err | Inr t \<Rightarrow> Inr TSizeT)"
| "typeof G (Div e1 e2) =
     (case typeof G e1 of
        Inl err \<Rightarrow> Inl err
      | Inr t1 \<Rightarrow>
         (case typeof G e2 of
            Inl err \<Rightarrow> Inl err
          | Inr t2 \<Rightarrow> division_type t1 t2))"
| "typeof G (BuiltinExpect e c) =
     (case typeof G e of
        Inl err \<Rightarrow> Inl err
      | Inr t1 \<Rightarrow>
         (case typeof G c of
            Inl err \<Rightarrow> Inl err
          | Inr t2 \<Rightarrow> if integral t1 \<and> integral t2 then Inr TLong else Inl Unmodelled))"

subsection \<open>Values and evaluation\<close>

text \<open>
  A floating value is a sign with a significand and an exponent, an infinity or a NaN;
  it is zero exactly when it is finite with significand 0.
\<close>

datatype fpval = Finite bool nat int | Infinity bool | NaN

fun fp_is_zero :: "fpval \<Rightarrow> bool" where
  "fp_is_zero (Finite s m e) = (m = 0)"
| "fp_is_zero f = False"

text \<open>
  A pointer is null or designates an element of a named array object.  A value of
  integral type, \<^verbatim>\<open>bool\<close> included (\<^verbatim>\<open>false\<close> is 0 and \<^verbatim>\<open>true\<close> is 1), is an integer.
\<close>

datatype val =
    VInt int
  | VFloat fpval
  | VPtr "(name \<times> nat) option"
  | VArr "val list"
  | VObj name

type_synonym store = "name \<rightharpoonup> val"

type_synonym 'a result = "error + ('a \<times> store)"

type_synonym bodies = "name \<rightharpoonup> (store \<Rightarrow> val result)"

definition of_truth :: "bool \<Rightarrow> val" where
  "of_truth b = VInt (if b then 1 else 0)"

text \<open>
  Contextual conversion to \<^verbatim>\<open>bool\<close>, as \<^verbatim>\<open>!\<close> and \<^verbatim>\<open>if\<close> apply it: zero and null are
  false, every other scalar is true, an array converts to the non-null pointer to its
  first element.  A class object would run a user-defined conversion.
\<close>

fun to_bool :: "val \<Rightarrow> error + bool" where
  "to_bool (VInt n) = Inr (n \<noteq> 0)"
| "to_bool (VFloat f) = Inr (\<not> fp_is_zero f)"
| "to_bool (VPtr q) = Inr (q \<noteq> None)"
| "to_bool (VArr vs) = Inr True"
| "to_bool (VObj c) = Inl Unmodelled"

text \<open>
  Conversion of an integer to \<^verbatim>\<open>long\<close>, the parameter type of \<^verbatim>\<open>__builtin_expect\<close>:
  reduced modulo \<open>2 ^ long_bits\<close> into the signed range.
\<close>

definition to_long :: "abi \<Rightarrow> int \<Rightarrow> int" where
  "to_long p n = (n + 2 ^ (long_bits p - 1)) mod 2 ^ long_bits p - 2 ^ (long_bits p - 1)"

text \<open>Reading element \<open>i\<close> through an array value or a pointer.\<close>

definition element :: "val list \<Rightarrow> int \<Rightarrow> error + val" where
  "element vs i = (if 0 \<le> i \<and> i < int (length vs) then Inr (vs ! nat i) else Inl OutOfBounds)"

fun subscript :: "store \<Rightarrow> val \<Rightarrow> val \<Rightarrow> error + val" where
  "subscript s (VArr vs) (VInt i) = element vs i"
| "subscript s (VPtr None) (VInt i) = Inl NullPointer"
| "subscript s (VPtr (Some (x, k))) (VInt i) =
     (case s x of
        None \<Rightarrow> Inl (Undeclared x)
      | Some (VArr vs) \<Rightarrow> element vs (int k + i)
      | Some v \<Rightarrow> if int k + i = 0 then Inr v else Inl OutOfBounds)"
| "subscript s a i = Inl Unmodelled"

text \<open>
  Evaluation threads the store through the operands, left to right.  The operand of
  \<^verbatim>\<open>sizeof\<close> is not evaluated: the result is the size of its static type and the store
  is passed on as it is.
\<close>

fun eval :: "static_env \<Rightarrow> bodies \<Rightarrow> expr \<Rightarrow> store \<Rightarrow> val result" where
  "eval G F (Var x) s =
     (case s x of None \<Rightarrow> Inl (Undeclared x) | Some v \<Rightarrow> Inr (v, s))"
| "eval G F (BoolLit b) s = Inr (of_truth b, s)"
| "eval G F (IntLit n) s = Inr (VInt (int n), s)"
| "eval G F (Call f) s =
     (case F f of None \<Rightarrow> Inl (Undeclared f) | Some body \<Rightarrow> body s)"
| "eval G F (Paren e) s = eval G F e s"
| "eval G F (Not e) s =
     (case eval G F e s of
        Inl err \<Rightarrow> Inl err
      | Inr (v, s') \<Rightarrow>
         (case to_bool v of Inl err \<Rightarrow> Inl err | Inr b \<Rightarrow> Inr (of_truth (\<not> b), s')))"
| "eval G F (Index a i) s =
     (case eval G F a s of
        Inl err \<Rightarrow> Inl err
      | Inr (va, s1) \<Rightarrow>
         (case eval G F i s1 of
            Inl err \<Rightarrow> Inl err
          | Inr (vi, s2) \<Rightarrow>
             (case subscript s2 va vi of Inl err \<Rightarrow> Inl err | Inr v \<Rightarrow> Inr (v, s2))))"
| "eval G F (SizeofE e) s =
     (case typeof G e of
        Inl err \<Rightarrow> Inl err
      | Inr t \<Rightarrow> Inr (VInt (int (sizeof (platform G) t)), s))"
| "eval G F (Div e1 e2) s =
     (case eval G F e1 s of
        Inl err \<Rightarrow> Inl err
      | Inr (v1, s1) \<Rightarrow>
         (case eval G F e2 s1 of
            Inl err \<Rightarrow> Inl err
          | Inr (v2, s2) \<Rightarrow>
             (case (v1, v2) of
                (VInt n, VInt m) \<Rightarrow>
                  if m = 0 then Inl DivisionByZero else Inr (VInt (n div m), s2)
              | _ \<Rightarrow> Inl Unmodelled)))"
| "eval G F (BuiltinExpect e c) s =
     (case eval G F e s of
        Inl err \<Rightarrow> Inl err
      | Inr (v1, s1) \<Rightarrow>
         (case eval G F c s1 of
            Inl err \<Rightarrow> Inl err
          | Inr (v2, s2) \<Rightarrow>
             (case (v1, v2) of
                (VInt n, VInt m) \<Rightarrow> Inr (VInt (to_long (platform G) n), s2)
              | _ \<Rightarrow> Inl Unmodelled)))"

text \<open>
  Evaluation at compile time: no store and no function bodies.  It succeeds on literals,
  \<^verbatim>\<open>sizeof\<close>, parentheses, \<^verbatim>\<open>!\<close> and division by a non-zero constant.
\<close>

fun const_eval :: "static_env \<Rightarrow> expr \<Rightarrow> val option" where
  "const_eval G (BoolLit b) = Some (of_truth b)"
| "const_eval G (IntLit n) = Some (VInt (int n))"
| "const_eval G (Paren e) = const_eval G e"
| "const_eval G (Not e) =
     (case const_eval G e of
        None \<Rightarrow> None
      | Some v \<Rightarrow> (case to_bool v of Inl err \<Rightarrow> None | Inr b \<Rightarrow> Some (of_truth (\<not> b))))"
| "const_eval G (SizeofE e) =
     (case typeof G e of
        Inl err \<Rightarrow> None
      | Inr t \<Rightarrow> Some (VInt (int (sizeof (platform G) t))))"
| "const_eval G (Div e1 e2) =
     (case const_eval G e1 of
        None \<Rightarrow> None
      | Some v1 \<Rightarrow>
         (case const_eval G e2 of
            None \<Rightarrow> None
          | Some v2 \<Rightarrow>
             (case (v1, v2) of
                (VInt n, VInt m) \<Rightarrow> if m = 0 then None else Some (VInt (n div m))
              | _ \<Rightarrow> None)))"
| "const_eval G e = None"

text \<open>
  A statement ends with the value it returned, if it returned.  \<^verbatim>\<open>if\<close> converts its
  condition to \<^verbatim>\<open>bool\<close> and runs the chosen branch in the store the condition left.
\<close>

fun exec :: "static_env \<Rightarrow> bodies \<Rightarrow> stmt \<Rightarrow> store \<Rightarrow> (val option) result" where
  "exec G F Skip s = Inr (None, s)"
| "exec G F (ExprStmt e) s =
     (case eval G F e s of Inl err \<Rightarrow> Inl err | Inr (v, s') \<Rightarrow> Inr (None, s'))"
| "exec G F (Return e) s =
     (case eval G F e s of Inl err \<Rightarrow> Inl err | Inr (v, s') \<Rightarrow> Inr (Some v, s'))"
| "exec G F (If c s1 s2) s =
     (case eval G F c s of
        Inl err \<Rightarrow> Inl err
      | Inr (v, s') \<Rightarrow>
         (case to_bool v of
            Inl err \<Rightarrow> Inl err
          | Inr b \<Rightarrow> if b then exec G F s1 s' else exec G F s2 s'))"
| "exec G F (Seq s1 s2) s =
     (case exec G F s1 s of
        Inl err \<Rightarrow> Inl err
      | Inr (Some v, s') \<Rightarrow> Inr (Some v, s')
      | Inr (None, s') \<Rightarrow> exec G F s2 s')"

section \<open>The macros of \<^verbatim>\<open>util/macros.h\<close>\<close>

text \<open>
  The macros as functions on expression trees: the tree that the replacement list
  parses to once the argument is in place.  The replacement lists themselves, token by
  token, are \<open>ZN_ARRAY_LENGTH_body\<close>, \<open>ZN_LIKELY_body\<close> and \<open>ZN_UNLIKELY_body\<close> below.
  The preprocessor pastes tokens, and of the three lists only \<^verbatim>\<open>sizeof(a)\<close> and
  \<^verbatim>\<open>!!(x)\<close> put the argument in parentheses; \<^verbatim>\<open>a[0]\<close> and the bare \<^verbatim>\<open>x\<close> of the
  \<^verbatim>\<open>#else\<close> branch do not.  So the trees are the parse of the pasted tokens where the
  argument stays one operand: for every argument in the \<^verbatim>\<open>__GNUC__\<close> hints
  (\<open>parse_ZN_LIKELY_body_gnuc\<close>, \<open>parse_ZN_UNLIKELY_body_gnuc\<close>), for a postfix expression
  such as a name in \<^verbatim>\<open>ZN_ARRAY_LENGTH\<close> (\<open>parse_ZN_ARRAY_LENGTH_name\<close>), and for a
  fallback hint that is a whole expression or the condition of an \<^verbatim>\<open>if\<close>.  Elsewhere
  the pasted tokens regroup, and what they parse to is found with \<open>substitute\<close> and
  \<open>parse\<close>.

  \<^verbatim>\<open>#define ZN_ARRAY_LENGTH(a) (sizeof(a) / sizeof(a[0]))\<close>
\<close>

definition ZN_ARRAY_LENGTH :: "expr \<Rightarrow> expr" where
  "ZN_ARRAY_LENGTH a = Paren (Div (SizeofE (Paren a)) (SizeofE (Paren (Index a (IntLit 0)))))"

text \<open>
  The two definitions of each hint macro, selected by \<^verbatim>\<open>#if defined(__GNUC__)\<close>:
  \<^verbatim>\<open>__builtin_expect(!!(x), 1)\<close> and \<^verbatim>\<open>__builtin_expect(!!(x), 0)\<close> when it is
  defined, the bare argument otherwise.
\<close>

definition ZN_LIKELY :: "bool \<Rightarrow> expr \<Rightarrow> expr" where
  "ZN_LIKELY defined_GNUC x =
     (if defined_GNUC then BuiltinExpect (Not (Not (Paren x))) (IntLit 1) else x)"

definition ZN_UNLIKELY :: "bool \<Rightarrow> expr \<Rightarrow> expr" where
  "ZN_UNLIKELY defined_GNUC x =
     (if defined_GNUC then BuiltinExpect (Not (Not (Paren x))) (IntLit 0) else x)"

subsection \<open>Conditions and hinted programs\<close>

text \<open>An expression used as a condition: its value converted to \<^verbatim>\<open>bool\<close>.\<close>

definition eval_bool :: "static_env \<Rightarrow> bodies \<Rightarrow> expr \<Rightarrow> store \<Rightarrow> bool result" where
  "eval_bool G F e s =
     (case eval G F e s of
        Inl err \<Rightarrow> Inl err
      | Inr (v, s') \<Rightarrow> (case to_bool v of Inl err \<Rightarrow> Inl err | Inr b \<Rightarrow> Inr (b, s')))"

text \<open>
  A program with hints is the program with some conditions of its \<^verbatim>\<open>if\<close> statements
  wrapped in \<^verbatim>\<open>ZN_LIKELY\<close> or \<^verbatim>\<open>ZN_UNLIKELY\<close>; \<open>h\<close> chooses the hint of each
  condition.
\<close>

datatype hint = Plain | Likely | Unlikely

fun hinted :: "bool \<Rightarrow> hint \<Rightarrow> expr \<Rightarrow> expr" where
  "hinted g Plain c = c"
| "hinted g Likely c = ZN_LIKELY g c"
| "hinted g Unlikely c = ZN_UNLIKELY g c"

fun annotate :: "bool \<Rightarrow> (expr \<Rightarrow> hint) \<Rightarrow> stmt \<Rightarrow> stmt" where
  "annotate g h (If c s1 s2) = If (hinted g (h c) c) (annotate g h s1) (annotate g h s2)"
| "annotate g h (Seq s1 s2) = Seq (annotate g h s1) (annotate g h s2)"
| "annotate g h st = st"

text \<open>The values a scalar expression can have.\<close>

fun scalar_val :: "val \<Rightarrow> bool" where
  "scalar_val (VInt n) = True"
| "scalar_val (VFloat f) = True"
| "scalar_val (VPtr q) = True"
| "scalar_val v = False"

text \<open>The value alone of a result, without the store.\<close>

definition outcome :: "'a result \<Rightarrow> error + 'a" where
  "outcome r = (case r of Inl err \<Rightarrow> Inl err | Inr (v, s) \<Rightarrow> Inr v)"

text \<open>\<^verbatim>\<open>size_t\<close> is an unsigned integral type: its values are \<open>0 .. 2 ^ size_t_bits - 1\<close>.\<close>

definition size_t_value :: "abi \<Rightarrow> val \<Rightarrow> bool" where
  "size_t_value p v = (case v of VInt n \<Rightarrow> 0 \<le> n \<and> n < 2 ^ size_t_bits p | _ \<Rightarrow> False)"

subsection \<open>Tokens, macro replacement and parsing\<close>

text \<open>
  The preprocessor works on tokens.  A function-like macro is a replacement list in which
  the parameter stands for the tokens of the argument; nothing puts the argument in
  parentheses but the replacement list itself.
\<close>

datatype token =
    TIdent name
  | TNum nat
  | TSizeof
  | TLParen | TRParen
  | TLBracket | TRBracket
  | TBang
  | TSlash
  | TComma

text \<open>An element of a replacement list: a token of the header or the parameter.\<close>

datatype piece = Tok token | Param

text \<open>\<^verbatim>\<open>(sizeof(a) / sizeof(a[0]))\<close>\<close>

definition ZN_ARRAY_LENGTH_body :: "piece list" where
  "ZN_ARRAY_LENGTH_body =
     [Tok TLParen, Tok TSizeof, Tok TLParen, Param, Tok TRParen, Tok TSlash,
      Tok TSizeof, Tok TLParen, Param, Tok TLBracket, Tok (TNum 0), Tok TRBracket, Tok TRParen,
      Tok TRParen]"

text \<open>
  \<^verbatim>\<open>__builtin_expect(!!(x), 1)\<close> and \<^verbatim>\<open>__builtin_expect(!!(x), 0)\<close> when
  \<^verbatim>\<open>__GNUC__\<close> is defined, \<^verbatim>\<open>x\<close> otherwise.
\<close>

definition ZN_LIKELY_body :: "bool \<Rightarrow> piece list" where
  "ZN_LIKELY_body defined_GNUC =
     (if defined_GNUC
      then [Tok (TIdent ''__builtin_expect''), Tok TLParen, Tok TBang, Tok TBang, Tok TLParen,
            Param, Tok TRParen, Tok TComma, Tok (TNum 1), Tok TRParen]
      else [Param])"

definition ZN_UNLIKELY_body :: "bool \<Rightarrow> piece list" where
  "ZN_UNLIKELY_body defined_GNUC =
     (if defined_GNUC
      then [Tok (TIdent ''__builtin_expect''), Tok TLParen, Tok TBang, Tok TBang, Tok TLParen,
            Param, Tok TRParen, Tok TComma, Tok (TNum 0), Tok TRParen]
      else [Param])"

definition macros :: "bool \<Rightarrow> name \<Rightarrow> piece list option" where
  "macros defined_GNUC m =
     (if m = ''ZN_ARRAY_LENGTH'' then Some ZN_ARRAY_LENGTH_body
      else if m = ''ZN_LIKELY'' then Some (ZN_LIKELY_body defined_GNUC)
      else if m = ''ZN_UNLIKELY'' then Some (ZN_UNLIKELY_body defined_GNUC)
      else None)"

text \<open>Replacement: the argument's tokens are pasted where the parameter stands.\<close>

fun substitute :: "piece list \<Rightarrow> token list \<Rightarrow> token list" where
  "substitute [] arg = []"
| "substitute (Tok t # ps) arg = t # substitute ps arg"
| "substitute (Param # ps) arg = arg @ substitute ps arg"

text \<open>
  The argument of an invocation: the tokens up to the parenthesis that closes it, at
  nesting depth \<open>d\<close>.  The macros take one argument, so a comma outside inner
  parentheses is an error, as is a missing closing parenthesis.
\<close>

fun split_arg :: "nat \<Rightarrow> token list \<Rightarrow> (token list \<times> token list) option" where
  "split_arg d [] = None"
| "split_arg d (TRParen # ts) =
     (case d of
        0 \<Rightarrow> Some ([], ts)
      | Suc d' \<Rightarrow> map_option (\<lambda>(a, r). (TRParen # a, r)) (split_arg d' ts))"
| "split_arg d (TLParen # ts) = map_option (\<lambda>(a, r). (TLParen # a, r)) (split_arg (Suc d) ts)"
| "split_arg d (TComma # ts) =
     (case d of
        0 \<Rightarrow> None
      | Suc d' \<Rightarrow> map_option (\<lambda>(a, r). (TComma # a, r)) (split_arg d ts))"
| "split_arg d (t # ts) = map_option (\<lambda>(a, r). (t # a, r)) (split_arg d ts)"

text \<open>
  Macro expansion of a token sequence.  The argument is expanded before it is pasted.  No
  replacement list of the header names a macro, so the result needs no second scan.  A
  macro name that no parenthesis follows is left as it is.
\<close>

function (sequential) preprocess :: "bool \<Rightarrow> token list \<Rightarrow> token list option" where
  "preprocess g [] = Some []"
| "preprocess g (TIdent m # TLParen # ts) =
     (case macros g m of
        None \<Rightarrow> map_option (\<lambda>r. TIdent m # r) (preprocess g (TLParen # ts))
      | Some body \<Rightarrow>
         (case split_arg 0 ts of
            None \<Rightarrow> None
          | Some (arg, rest) \<Rightarrow>
             (case preprocess g arg of
                None \<Rightarrow> None
              | Some arg' \<Rightarrow>
                 (case preprocess g rest of
                    None \<Rightarrow> None
                  | Some rest' \<Rightarrow> Some (substitute body arg' @ rest')))))"
| "preprocess g (t # ts) = map_option (\<lambda>r. t # r) (preprocess g ts)"
  by pat_completeness auto
termination
proof -
  have shorter: "Suc (length a + length r) = length ts"
    if "split_arg d ts = Some (a, r)" for d ts a r
    using that
    by (induction d ts arbitrary: a r rule: split_arg.induct) (auto split: nat.splits)
  show ?thesis
    by (relation "measure (\<lambda>(g, ts). length ts)") (auto dest: shorter)
qed


text \<open>
  The parser of the fragment's expressions, by recursive descent:
  \<^verbatim>\<open>
  expr    ::= unary { "/" unary }
  unary   ::= "!" unary | "sizeof" unary | primary { "[" expr "]" }
  primary ::= number | "true" | "false" | name | name "(" ")" | "(" expr ")"
            | "__builtin_expect" "(" expr "," expr ")"
  \<close>
  Unary operators bind tighter than division and subscripts bind tighter than unary
  operators, as in C++.  Each call uses one unit of fuel, and \<open>fuel\<close> allots three
  units per token and three more.
\<close>

definition after :: "token \<Rightarrow> token list \<Rightarrow> token list option" where
  "after t ts = (case ts of [] \<Rightarrow> None | t' # r \<Rightarrow> if t' = t then Some r else None)"

definition expect :: "token \<Rightarrow> (expr \<times> token list) option \<Rightarrow> (expr \<times> token list) option" where
  "expect t p =
     (case p of
        None \<Rightarrow> None
      | Some (e, ts) \<Rightarrow> (case after t ts of None \<Rightarrow> None | Some r \<Rightarrow> Some (e, r)))"

datatype word = WTrue | WFalse | WBuiltinExpect | WName

definition word_of :: "name \<Rightarrow> word" where
  "word_of x =
     (if x = ''true'' then WTrue
      else if x = ''false'' then WFalse
      else if x = ''__builtin_expect'' then WBuiltinExpect
      else WName)"

fun parse_primary :: "nat \<Rightarrow> token list \<Rightarrow> (expr \<times> token list) option"
  and parse_postfix_rest :: "nat \<Rightarrow> expr \<Rightarrow> token list \<Rightarrow> (expr \<times> token list) option"
  and parse_unary :: "nat \<Rightarrow> token list \<Rightarrow> (expr \<times> token list) option"
  and parse_mult_rest :: "nat \<Rightarrow> expr \<Rightarrow> token list \<Rightarrow> (expr \<times> token list) option"
  and parse_expr :: "nat \<Rightarrow> token list \<Rightarrow> (expr \<times> token list) option"
where
  "parse_primary 0 ts = None"
| "parse_primary (Suc k) [] = None"
| "parse_primary (Suc k) (t # r) =
     (case t of
        TNum n \<Rightarrow> Some (IntLit n, r)
      | TIdent x \<Rightarrow>
          (case word_of x of
             WTrue \<Rightarrow> Some (BoolLit True, r)
           | WFalse \<Rightarrow> Some (BoolLit False, r)
           | WBuiltinExpect \<Rightarrow>
               (case after TLParen r of
                  None \<Rightarrow> None
                | Some r1 \<Rightarrow>
                    (case expect TComma (parse_expr k r1) of
                       None \<Rightarrow> None
                     | Some (e, r2) \<Rightarrow>
                         (case expect TRParen (parse_expr k r2) of
                            None \<Rightarrow> None
                          | Some (c, r3) \<Rightarrow> Some (BuiltinExpect e c, r3))))
           | WName \<Rightarrow>
               (case after TLParen r of
                  None \<Rightarrow> Some (Var x, r)
                | Some r1 \<Rightarrow>
                    (case after TRParen r1 of
                       None \<Rightarrow> Some (Var x, r)
                     | Some r2 \<Rightarrow> Some (Call x, r2))))
      | TLParen \<Rightarrow>
          (case expect TRParen (parse_expr k r) of
             None \<Rightarrow> None
           | Some (e, r1) \<Rightarrow> Some (Paren e, r1))
      | _ \<Rightarrow> None)"
| "parse_postfix_rest 0 e ts = None"
| "parse_postfix_rest (Suc k) e ts =
     (case after TLBracket ts of
        None \<Rightarrow> Some (e, ts)
      | Some r \<Rightarrow>
          (case expect TRBracket (parse_expr k r) of
             None \<Rightarrow> None
           | Some (i, r1) \<Rightarrow> parse_postfix_rest k (Index e i) r1))"
| "parse_unary 0 ts = None"
| "parse_unary (Suc k) ts =
     (case after TBang ts of
        Some r \<Rightarrow>
          (case parse_unary k r of None \<Rightarrow> None | Some (e, r1) \<Rightarrow> Some (Not e, r1))
      | None \<Rightarrow>
          (case after TSizeof ts of
             Some r \<Rightarrow>
               (case parse_unary k r of None \<Rightarrow> None | Some (e, r1) \<Rightarrow> Some (SizeofE e, r1))
           | None \<Rightarrow>
               (case parse_primary k ts of
                  None \<Rightarrow> None
                | Some (e, r) \<Rightarrow> parse_postfix_rest k e r)))"
| "parse_mult_rest 0 e ts = None"
| "parse_mult_rest (Suc k) e ts =
     (case after TSlash ts of
        None \<Rightarrow> Some (e, ts)
      | Some r \<Rightarrow>
          (case parse_unary k r of
             None \<Rightarrow> None
           | Some (e2, r1) \<Rightarrow> parse_mult_rest k (Div e e2) r1))"
| "parse_expr 0 ts = None"
| "parse_expr (Suc k) ts =
     (case parse_unary k ts of None \<Rightarrow> None | Some (e, r) \<Rightarrow> parse_mult_rest k e r)"

fun fuel :: "token list \<Rightarrow> nat" where
  "fuel [] = Suc (Suc (Suc 0))"
| "fuel (t # ts) = Suc (Suc (Suc (fuel ts)))"

definition parse :: "token list \<Rightarrow> expr option" where
  "parse ts = (case parse_expr (fuel ts) ts of Some (e, []) \<Rightarrow> Some e | _ \<Rightarrow> None)"

text \<open>An expression in source form: preprocessed, then parsed.\<close>

definition compile :: "bool \<Rightarrow> token list \<Rightarrow> expr option" where
  "compile g ts = (case preprocess g ts of None \<Rightarrow> None | Some ts' \<Rightarrow> parse ts')"

text \<open>
  Parentheses in a token sequence: \<open>scan d ts\<close> is the nesting depth after \<open>ts\<close>
  starting at depth \<open>d\<close>, if no parenthesis closes below depth 0.  A macro argument is
  balanced; \<open>consumed ts r\<close> says that \<open>r\<close> is what is left of \<open>ts\<close> after a balanced
  prefix.
\<close>

fun scan :: "nat \<Rightarrow> token list \<Rightarrow> nat option" where
  "scan d [] = Some d"
| "scan d (TLParen # ts) = scan (Suc d) ts"
| "scan d (TRParen # ts) = (case d of 0 \<Rightarrow> None | Suc d' \<Rightarrow> scan d' ts)"
| "scan d (t # ts) = scan d ts"

definition balanced :: "token list \<Rightarrow> bool" where
  "balanced ts = (scan 0 ts = Some 0)"

definition consumed :: "token list \<Rightarrow> token list \<Rightarrow> bool" where
  "consumed ts r = (\<exists>q. ts = q @ r \<and> balanced q)"

section \<open>Concrete platforms and programs used in the examples\<close>

text \<open>An LP64 platform with one 12-byte class \<^verbatim>\<open>Vec3\<close>.\<close>

definition lp64 :: abi where
  "lp64 = \<lparr> char_bit = 8, sizeof_bool = 1, sizeof_short = 2, sizeof_int = 4,
            sizeof_long = 8, sizeof_long_long = 8, sizeof_size_t = 8,
            sizeof_float = 4, sizeof_double = 8, sizeof_pointer = 8,
            classes = [(''Vec3'', 12, None)] \<rparr>"

text \<open>
  \<^verbatim>\<open>
  double one[1];  Vec3 big[1024];  int grid[3][5];  int a[10];  int b[10];
  int *p = a;  int i = 0;  bool flag = true;  int n = 5;
  int *nullp = nullptr;  double negzero = -0.0;  double half = 0.5;  double nan = NAN;
  int next() { return i++; }
  \<close>
\<close>

definition demo_env :: static_env where
  "demo_env =
     \<lparr> platform = lp64,
       var_types = map_of
         [(''one'', TArray TDouble 1), (''big'', TArray (TClass ''Vec3'') 1024),
          (''grid'', TArray (TArray TInt 5) 3), (''a'', TArray TInt 10),
          (''b'', TArray TInt 10), (''p'', TPtr TInt), (''i'', TInt), (''flag'', TBool),
          (''n'', TInt), (''nullp'', TPtr TInt), (''negzero'', TDouble), (''half'', TDouble),
          (''nan'', TDouble)],
       ret_types = map_of [(''next'', TInt)] \<rparr>"

definition next_body :: "store \<Rightarrow> val result" where
  "next_body s =
     (case s ''i'' of
        Some (VInt k) \<Rightarrow> Inr (VInt k, s(''i'' \<mapsto> VInt (k + 1)))
      | _ \<Rightarrow> Inl (Undeclared ''i''))"

definition demo_bodies :: bodies where
  "demo_bodies = map_of [(''next'', next_body)]"

definition demo_store :: store where
  "demo_store = map_of
     [(''a'', VArr (replicate 10 (VInt 7))), (''b'', VArr (replicate 10 (VInt 9))),
      (''p'', VPtr (Some (''a'', 0))), (''i'', VInt 0), (''flag'', VInt 1), (''n'', VInt 5),
      (''nullp'', VPtr None), (''negzero'', VFloat (Finite True 0 0)),
      (''half'', VFloat (Finite False 1 (- 1))), (''nan'', VFloat NaN)]"

text \<open>
  Source text with a hint as the operand of \<^verbatim>\<open>!\<close>: the condition
  \<^verbatim>\<open>sizeof(n) / sizeof(a)\<close>, \<^verbatim>\<open>!M(sizeof(n) / sizeof(a))\<close> for a macro name \<open>M\<close>,
  and \<^verbatim>\<open>!(sizeof(n) / sizeof(a))\<close>, which is the same text without a hint.
\<close>

definition cond_tokens :: "token list" where
  "cond_tokens =
     [TSizeof, TLParen, TIdent ''n'', TRParen, TSlash, TSizeof, TLParen, TIdent ''a'', TRParen]"

definition cond_expr :: expr where
  "cond_expr = Div (SizeofE (Paren (Var ''n''))) (SizeofE (Paren (Var ''a'')))"

definition negated :: "name \<Rightarrow> token list" where
  "negated m = TBang # TIdent m # TLParen # cond_tokens @ [TRParen]"

definition negated_plain :: "token list" where
  "negated_plain = TBang # TLParen # cond_tokens @ [TRParen]"

section \<open>Sizes and static types\<close>

lemma literal_type_0: "literal_type p 0 = Inr TInt"
  by (simp add: literal_type_def)

lemma sizeof_pos: "wf_abi p \<Longrightarrow> complete p t \<Longrightarrow> 1 \<le> sizeof p t"
proof (induction t)
  case (TArray t n)
  then have "0 < sizeof p t" and "0 < n" by simp_all
  then have "0 < n * sizeof p t" by simp
  then show ?case by simp
next
  case (TClass c)
  then obtain k r where kr: "map_of (classes p) c = Some (k, r)"
    by (auto simp: class_size_def)
  then have "(c, k, r) \<in> set (classes p)" by (rule map_of_SomeD)
  with TClass.prems(1) have "wf_class p (c, k, r)"
    by (simp add: wf_abi_def list_all_iff)
  then show ?case using kr by (simp add: wf_class_def fits_size_t_def class_size_def)
qed (simp_all add: wf_abi_def fits_size_t_def)

lemma sizeof_fits: "wf_abi p \<Longrightarrow> complete p t \<Longrightarrow> sizeof p t < 2 ^ size_t_bits p"
proof (induction t)
  case (TClass c)
  then obtain k r where kr: "map_of (classes p) c = Some (k, r)"
    by (auto simp: class_size_def)
  then have "(c, k, r) \<in> set (classes p)" by (rule map_of_SomeD)
  with TClass.prems(1) have "wf_class p (c, k, r)"
    by (simp add: wf_abi_def list_all_iff)
  then show ?case using kr by (simp add: wf_class_def fits_size_t_def class_size_def)
qed (simp_all add: wf_abi_def fits_size_t_def)

lemma subscript_type_complete:
  assumes "wf_abi p" and "complete p t" and "subscript_type p t = Inr u"
  shows "complete p u"
proof (cases t)
  case (TClass c)
  with assms(3) obtain k where kr: "map_of (classes p) c = Some (k, Some u)"
    by (auto simp: class_subscript_def split: option.splits)
  then have "(c, k, Some u) \<in> set (classes p)" by (rule map_of_SomeD)
  with assms(1) have "wf_class p (c, k, Some u)"
    by (simp add: wf_abi_def list_all_iff)
  then show ?thesis by (simp add: wf_class_def)
qed (use assms in \<open>auto split: if_splits\<close>)

lemma division_type_size_t [simp]: "division_type TSizeT TSizeT = Inr TSizeT"
  by (simp add: division_type_def)

lemma division_type_complete: "division_type t1 t2 = Inr t \<Longrightarrow> complete p t"
  by (auto simp: division_type_def split: if_splits)

lemma declared_complete: "declared p x d = Inr t \<Longrightarrow> complete p t"
  by (auto simp: declared_def split: option.splits if_splits)

lemma typeof_complete:
  "wf_abi (platform G) \<Longrightarrow> typeof G e = Inr t \<Longrightarrow> complete (platform G) t"
proof (induction e arbitrary: t)
  case (Index a i)
  then show ?case
    by (auto split: sum.splits if_splits dest: subscript_type_complete)
qed (auto simp: literal_type_def dest: declared_complete division_type_complete
    split: sum.splits if_splits)

lemma typeof_ZN_ARRAY_LENGTH:
  "typeof G (ZN_ARRAY_LENGTH a) =
     (case typeof G a of
        Inl err \<Rightarrow> Inl err
      | Inr t \<Rightarrow> (case subscript_type (platform G) t of Inl err \<Rightarrow> Inl err | Inr u \<Rightarrow> Inr TSizeT))"
  by (simp add: ZN_ARRAY_LENGTH_def literal_type_0 integral_def split: sum.splits)

lemma eval_ZN_ARRAY_LENGTH:
  "eval G F (ZN_ARRAY_LENGTH a) s =
     (case typeof G a of
        Inl err \<Rightarrow> Inl err
      | Inr t \<Rightarrow>
         (case subscript_type (platform G) t of
            Inl err \<Rightarrow> Inl err
          | Inr u \<Rightarrow>
             if sizeof (platform G) u = 0 then Inl DivisionByZero
             else Inr (VInt (int (sizeof (platform G) t div sizeof (platform G) u)), s)))"
  by (simp add: ZN_ARRAY_LENGTH_def literal_type_0 integral_def zdiv_int split: sum.splits)

section \<open>The hint macros as conditions\<close>

lemma long_bits_ge: "wf_abi p \<Longrightarrow> 8 \<le> long_bits p"
proof -
  assume "wf_abi p"
  then have "8 \<le> char_bit p" and "1 \<le> sizeof_long p"
    by (simp_all add: wf_abi_def fits_size_t_def)
  then have "8 * 1 \<le> char_bit p * sizeof_long p" by (rule mult_le_mono)
  then show ?thesis by (simp add: long_bits_def)
qed

lemma int_bits_ge: "wf_abi p \<Longrightarrow> 8 \<le> int_bits p"
proof -
  assume "wf_abi p"
  then have "8 \<le> char_bit p" and "1 \<le> sizeof_int p"
    by (simp_all add: wf_abi_def fits_size_t_def)
  then have "8 * 1 \<le> char_bit p * sizeof_int p" by (rule mult_le_mono)
  then show ?thesis by (simp add: int_bits_def)
qed

lemma to_long_small:
  assumes "wf_abi p" and "0 \<le> n" and "n \<le> 1"
  shows "to_long p n = n"
proof -
  define m where "m = long_bits p - 1"
  from assms(1) have "8 \<le> long_bits p" by (rule long_bits_ge)
  then have L: "long_bits p = Suc m" and "1 \<le> m"
    by (simp_all add: m_def)
  then have "(2::int) ^ 1 \<le> 2 ^ m"
    by (simp only: power_increasing_iff one_less_numeral_iff semiring_norm)
  then have "(2::int) \<le> 2 ^ m" by simp
  with assms have "0 \<le> n + 2 ^ m" and "n + 2 ^ m < 2 ^ Suc m"
    by simp_all
  then have "(n + 2 ^ m) mod 2 ^ Suc m = n + 2 ^ m"
    by (rule mod_pos_pos_trivial)
  then show ?thesis by (simp add: to_long_def L)
qed

lemma to_long_truth: "wf_abi p \<Longrightarrow> to_long p (if b then 1 else 0) = (if b then 1 else 0)"
  by (simp add: to_long_small)

lemma literal_type_1: "wf_abi p \<Longrightarrow> literal_type p 1 = Inr TInt"
proof -
  assume "wf_abi p"
  then have "8 \<le> int_bits p" by (rule int_bits_ge)
  then have "(2::nat) ^ 8 \<le> 2 ^ int_bits p" by (simp only: power_increasing_iff one_less_numeral_iff semiring_norm)
  then have "2 * 1 < (2::nat) ^ int_bits p" by simp
  then show ?thesis by (simp add: literal_type_def)
qed

lemma eval_gnuc_hint:
  "eval G F (BuiltinExpect (Not (Not (Paren x))) (IntLit k)) s =
     (case eval_bool G F x s of
        Inl err \<Rightarrow> Inl err
      | Inr (b, s') \<Rightarrow> Inr (VInt (to_long (platform G) (if b then 1 else 0)), s'))"
  by (simp add: eval_bool_def of_truth_def split: sum.splits prod.splits)

lemma eval_bool_gnuc_hint:
  assumes "wf_abi (platform G)"
  shows "eval_bool G F (BuiltinExpect (Not (Not (Paren x))) (IntLit k)) s = eval_bool G F x s"
proof (cases "eval_bool G F x s")
  case (Inl err)
  then show ?thesis
    unfolding eval_bool_def [of G F "BuiltinExpect (Not (Not (Paren x))) (IntLit k)"] eval_gnuc_hint
    by simp
next
  case (Inr r)
  obtain b s' where r: "r = (b, s')" by (cases r)
  show ?thesis
    unfolding eval_bool_def [of G F "BuiltinExpect (Not (Not (Paren x))) (IntLit k)"] eval_gnuc_hint
    using Inr r assms by (simp add: to_long_truth)
qed

lemma eval_bool_ZN_LIKELY:
  "wf_abi (platform G) \<Longrightarrow> eval_bool G F (ZN_LIKELY g x) s = eval_bool G F x s"
  by (simp add: ZN_LIKELY_def eval_bool_gnuc_hint)

lemma eval_bool_ZN_UNLIKELY:
  "wf_abi (platform G) \<Longrightarrow> eval_bool G F (ZN_UNLIKELY g x) s = eval_bool G F x s"
  by (simp add: ZN_UNLIKELY_def eval_bool_gnuc_hint)

lemma eval_bool_hinted:
  "wf_abi (platform G) \<Longrightarrow> eval_bool G F (hinted g h x) s = eval_bool G F x s"
  by (cases h) (simp_all add: eval_bool_ZN_LIKELY eval_bool_ZN_UNLIKELY)

lemma exec_If:
  "exec G F (If c s1 s2) s =
     (case eval_bool G F c s of
        Inl err \<Rightarrow> Inl err
      | Inr (b, s') \<Rightarrow> if b then exec G F s1 s' else exec G F s2 s')"
  by (simp add: eval_bool_def split: sum.splits prod.splits)

lemma exec_annotate:
  "wf_abi (platform G) \<Longrightarrow> exec G F (annotate g h st) s = exec G F st s"
proof (induction st arbitrary: s)
  case (If c s1 s2)
  then show ?case
    by (simp only: annotate.simps exec_If eval_bool_hinted)
next
  case (Seq s1 s2)
  then show ?case by (simp split: sum.splits option.splits)
qed simp_all

lemma const_eval_sound:
  "const_eval G e = Some v \<Longrightarrow> eval G F e s = Inr (v, s)"
proof (induction e arbitrary: v)
  case (Div e1 e2)
  then show ?case
    by (auto split: option.splits val.splits if_splits)
next
  case (Not e)
  then show ?case by (auto split: option.splits sum.splits)
qed (auto split: sum.splits)

lemma const_eval_ZN_ARRAY_LENGTH:
  "const_eval G (ZN_ARRAY_LENGTH a) =
     (case typeof G a of
        Inl err \<Rightarrow> None
      | Inr t \<Rightarrow>
         (case subscript_type (platform G) t of
            Inl err \<Rightarrow> None
          | Inr u \<Rightarrow>
             if sizeof (platform G) u = 0 then None
             else Some (VInt (int (sizeof (platform G) t div sizeof (platform G) u)))))"
  by (simp add: ZN_ARRAY_LENGTH_def literal_type_0 integral_def zdiv_int split: sum.splits)

section \<open>The example platform and program\<close>

lemma wf_lp64: "wf_abi lp64"
  by (simp add: wf_abi_def fits_size_t_def size_t_bits_def wf_class_def lp64_def)

lemma platform_demo: "platform demo_env = lp64"
  by (simp add: demo_env_def)

lemma wf_demo: "wf_abi (platform demo_env)"
  by (simp add: platform_demo wf_lp64)

lemma typeof_demo_vars:
  "typeof demo_env (Var ''one'') = Inr (TArray TDouble 1)"
  "typeof demo_env (Var ''big'') = Inr (TArray (TClass ''Vec3'') 1024)"
  "typeof demo_env (Var ''grid'') = Inr (TArray (TArray TInt 5) 3)"
  "typeof demo_env (Var ''a'') = Inr (TArray TInt 10)"
  "typeof demo_env (Var ''b'') = Inr (TArray TInt 10)"
  "typeof demo_env (Var ''p'') = Inr (TPtr TInt)"
  "typeof demo_env (Var ''i'') = Inr TInt"
  "typeof demo_env (Var ''flag'') = Inr TBool"
  "typeof demo_env (Var ''n'') = Inr TInt"
  "typeof demo_env (Var ''nullp'') = Inr (TPtr TInt)"
  "typeof demo_env (Var ''negzero'') = Inr TDouble"
  "typeof demo_env (Var ''half'') = Inr TDouble"
  "typeof demo_env (Var ''nan'') = Inr TDouble"
  by (simp_all add: demo_env_def declared_def lp64_def size_t_bits_def class_size_def)

section \<open>What the expansions compute\<close>

lemma ZN_ARRAY_LENGTH_subscriptable:
  assumes "wf_abi (platform G)" and "typeof G a = Inr t"
    and "subscript_type (platform G) t = Inr u"
  shows "1 \<le> sizeof (platform G) u"
    and "typeof G (ZN_ARRAY_LENGTH a) = Inr TSizeT"
    and "eval G F (ZN_ARRAY_LENGTH a) s =
           Inr (VInt (int (sizeof (platform G) t div sizeof (platform G) u)), s)"
    and "const_eval G (ZN_ARRAY_LENGTH a) =
           Some (VInt (int (sizeof (platform G) t div sizeof (platform G) u)))"
proof -
  have "complete (platform G) t"
    using assms(1,2) by (rule typeof_complete)
  with assms(1) have "complete (platform G) u"
    using assms(3) by (rule subscript_type_complete)
  with assms(1) show pos: "1 \<le> sizeof (platform G) u"
    by (rule sizeof_pos)
  show "typeof G (ZN_ARRAY_LENGTH a) = Inr TSizeT"
    using assms(2,3) by (simp add: typeof_ZN_ARRAY_LENGTH)
  show "eval G F (ZN_ARRAY_LENGTH a) s =
           Inr (VInt (int (sizeof (platform G) t div sizeof (platform G) u)), s)"
    using assms(2,3) pos by (simp add: eval_ZN_ARRAY_LENGTH)
  show "const_eval G (ZN_ARRAY_LENGTH a) =
           Some (VInt (int (sizeof (platform G) t div sizeof (platform G) u)))"
    using assms(2,3) pos by (simp add: const_eval_ZN_ARRAY_LENGTH)
qed

lemma eval_builtin_expect_literal:
  "eval G F (BuiltinExpect e (IntLit k)) s = eval G F (BuiltinExpect e (IntLit k')) s"
  by (simp split: sum.splits prod.splits val.splits)

lemma eval_gnuc_hint_double_negation:
  assumes "wf_abi (platform G)"
  shows "eval G F (BuiltinExpect (Not (Not (Paren x))) (IntLit k)) s = eval G F (Not (Not (Paren x))) s"
proof -
  have "eval G F (Not (Not (Paren x))) s =
     (case eval_bool G F x s of
        Inl err \<Rightarrow> Inl err
      | Inr (b, s') \<Rightarrow> Inr (VInt (if b then 1 else 0), s'))"
    by (simp add: eval_bool_def of_truth_def split: sum.splits prod.splits)
  then show ?thesis
    using assms by (simp add: eval_gnuc_hint to_long_truth split: sum.splits prod.splits)
qed

lemma eval_double_negation:
  assumes "eval G F x s = Inr (v, s')" and "to_bool v = Inr b"
  shows "eval G F (Not (Not (Paren x))) s = Inr (VInt (if b then 1 else 0), s')"
  using assms by (simp add: of_truth_def)

lemma to_bool_scalar: "scalar_val v \<Longrightarrow> to_bool v = Inr (to_bool v = Inr True)"
  by (cases v) simp_all

lemma typeof_gnuc_hint:
  assumes "wf_abi (platform G)" and "typeof G x = Inr t" and "scalar t \<or> is_array t"
    and "k \<le> 1"
  shows "typeof G (BuiltinExpect (Not (Not (Paren x))) (IntLit k)) = Inr TLong"
proof -
  have "k = 0 \<or> k = 1" using assms(4) by auto
  then have "literal_type (platform G) k = Inr TInt"
    using assms(1) literal_type_1 [of "platform G"] by (auto simp: literal_type_0)
  then show ?thesis
    using assms(2,3) by (simp add: scalar_def integral_def)
qed

lemma typeof_builtin_expect_literal:
  assumes "wf_abi (platform G)"
  shows "typeof G (BuiltinExpect e (IntLit 1)) = typeof G (BuiltinExpect e (IntLit 0))"
proof -
  have "typeof G (IntLit 1) = typeof G (IntLit 0)"
    using assms literal_type_1 [of "platform G"] by (simp add: literal_type_0)
  then show ?thesis
    by (simp del: typeof.simps(3) One_nat_def split: sum.splits)
qed

lemma eval_ZN_LIKELY_gnuc:
  assumes "wf_abi (platform G)" and "eval G F x s = Inr (v, s')" and "to_bool v = Inr b"
  shows "eval G F (ZN_LIKELY True x) s = Inr (of_truth b, s')"
  using assms by (simp add: ZN_LIKELY_def eval_gnuc_hint eval_bool_def to_long_truth of_truth_def)

lemma eval_ZN_UNLIKELY_gnuc:
  assumes "wf_abi (platform G)" and "eval G F x s = Inr (v, s')" and "to_bool v = Inr b"
  shows "eval G F (ZN_UNLIKELY True x) s = Inr (of_truth b, s')"
  using assms by (simp add: ZN_UNLIKELY_def eval_gnuc_hint eval_bool_def to_long_truth of_truth_def)

lemma to_bool_of_truth: "to_bool (of_truth b) = Inr b"
  by (simp add: of_truth_def)

lemma typeof_hint_bool:
  assumes "wf_abi (platform G)" and "typeof G x = Inr TBool" and "k \<le> 1"
  shows "typeof G (BuiltinExpect (Not (Not (Paren x))) (IntLit k)) = Inr TLong"
  using assms(1,2) _ assms(3) by (rule typeof_gnuc_hint) (simp add: scalar_def integral_def)

section \<open>What the replacement lists parse to\<close>

text \<open>
  A parser consumes a balanced prefix of its input.  So the parenthesis that follows a
  balanced macro argument is the one that closes the parenthesis the replacement list
  opened before it, whatever the argument is.
\<close>

lemma scan_append:
  "scan d (xs @ ys) = (case scan d xs of None \<Rightarrow> None | Some d' \<Rightarrow> scan d' ys)"
  by (induction d xs rule: scan.induct) (auto split: nat.splits)

lemma scan_shift: "scan d xs = Some d' \<Longrightarrow> scan (d + j) xs = Some (d' + j)"
  by (induction d xs rule: scan.induct) (auto split: nat.splits)

lemma balanced_shift: "balanced xs \<Longrightarrow> scan d xs = Some d"
  using scan_shift [of 0 xs 0 d] by (simp add: balanced_def)

lemma balanced_Nil: "balanced []"
  by (simp add: balanced_def)

lemma balanced_append: "balanced xs \<Longrightarrow> balanced ys \<Longrightarrow> balanced (xs @ ys)"
  by (simp add: balanced_def scan_append)

lemma balanced_parens: "balanced xs \<Longrightarrow> balanced (TLParen # xs @ [TRParen])"
  using balanced_shift [of xs "Suc 0"] by (simp add: balanced_def scan_append)

lemma balanced_token: "t \<noteq> TLParen \<Longrightarrow> t \<noteq> TRParen \<Longrightarrow> balanced xs \<Longrightarrow> balanced (t # xs)"
  by (cases t) (simp_all add: balanced_def)

lemma balanced_not_closing: "balanced xs \<Longrightarrow> \<not> balanced (xs @ TRParen # ys)"
  by (simp add: balanced_def scan_append)

lemma consumed_refl: "consumed ts ts"
  by (auto simp: consumed_def balanced_Nil)

lemma consumed_trans: "consumed ts r \<Longrightarrow> consumed r r' \<Longrightarrow> consumed ts r'"
  unfolding consumed_def
proof -
  assume "\<exists>q. ts = q @ r \<and> balanced q" and "\<exists>q. r = q @ r' \<and> balanced q"
  then obtain q1 q2 where "ts = q1 @ r" "balanced q1" "r = q2 @ r'" "balanced q2" by blast
  then have "ts = (q1 @ q2) @ r'" and "balanced (q1 @ q2)"
    by (simp_all add: balanced_append)
  then show "\<exists>q. ts = q @ r' \<and> balanced q" by blast
qed

lemma consumed_token:
  "t \<noteq> TLParen \<Longrightarrow> t \<noteq> TRParen \<Longrightarrow> consumed ts r \<Longrightarrow> consumed (t # ts) r"
  unfolding consumed_def
  by (metis append_Cons balanced_token)

lemma consumed_parens:
  assumes "consumed ts (TRParen # r)"
  shows "consumed (TLParen # ts) r"
proof -
  from assms obtain q where "ts = q @ TRParen # r" and "balanced q"
    unfolding consumed_def by blast
  then have "TLParen # ts = (TLParen # q @ [TRParen]) @ r" and "balanced (TLParen # q @ [TRParen])"
    by (simp_all add: balanced_parens)
  then show ?thesis unfolding consumed_def by blast
qed

lemma after_Some: "after t ts = Some r \<longleftrightarrow> ts = t # r"
  by (auto simp: after_def split: list.splits)

lemma expect_Some: "expect t p = Some (e, r) \<longleftrightarrow> p = Some (e, t # r)"
  by (auto simp: expect_def after_def split: option.splits list.splits if_splits)


lemma consumed_skip:
  assumes "consumed ts (t # r)" and "t \<noteq> TLParen" and "t \<noteq> TRParen"
  shows "consumed ts r"
proof -
  from assms(1) obtain q where "ts = q @ t # r" and "balanced q"
    unfolding consumed_def by blast
  moreover have "balanced [t]"
    using assms(2,3) by (simp add: balanced_token balanced_Nil)
  ultimately have "ts = (q @ [t]) @ r" and "balanced (q @ [t])"
    by (simp_all add: balanced_append)
  then show ?thesis unfolding consumed_def by blast
qed

lemma parse_consumed:
  "(parse_primary k ts = Some (e, r) \<longrightarrow> consumed ts r)
   \<and> (parse_postfix_rest k e0 ts = Some (e, r) \<longrightarrow> consumed ts r)
   \<and> (parse_unary k ts = Some (e, r) \<longrightarrow> consumed ts r)
   \<and> (parse_mult_rest k e0 ts = Some (e, r) \<longrightarrow> consumed ts r)
   \<and> (parse_expr k ts = Some (e, r) \<longrightarrow> consumed ts r)"
proof (induction k arbitrary: ts e e0 r)
  case 0
  show ?case by simp
next
  case (Suc k)
  note IH = Suc.IH
  have primary: "consumed ts r" if "parse_primary (Suc k) ts = Some (e, r)" for ts e r
  proof (cases ts)
    case Nil
    with that show ?thesis by simp
  next
    case (Cons t r0)
    show ?thesis
    proof (cases t)
      case (TNum n)
      with that Cons have "r = r0" by simp
      then show ?thesis
        using Cons TNum by (simp add: consumed_token consumed_refl)
    next
      case TLParen
      with that Cons obtain e1 where "parse_expr k r0 = Some (e1, TRParen # r)"
        by (auto simp: expect_Some split: option.splits)
      with IH have "consumed r0 (TRParen # r)" by blast
      then show ?thesis using Cons TLParen by (simp add: consumed_parens)
    next
      case (TIdent x)
      show ?thesis
      proof (cases "word_of x")
        case WTrue
        with that Cons TIdent show ?thesis
          by (auto simp: consumed_token consumed_refl)
      next
        case WFalse
        with that Cons TIdent show ?thesis
          by (auto simp: consumed_token consumed_refl)
      next
        case WName
        with that Cons TIdent have "r = r0 \<or> r0 = TLParen # TRParen # r"
          by (auto simp: after_Some split: option.splits)
        then show ?thesis
        proof
          assume "r = r0"
          then show ?thesis using Cons TIdent by (simp add: consumed_token consumed_refl)
        next
          assume "r0 = TLParen # TRParen # r"
          moreover have "consumed (TLParen # TRParen # r) r"
            by (rule consumed_parens) (rule consumed_refl)
          ultimately show ?thesis using Cons TIdent by (simp add: consumed_token)
        qed
      next
        case WBuiltinExpect
        with that Cons TIdent obtain r1 e1 r2 c where
          r0: "r0 = TLParen # r1"
          and p1: "parse_expr k r1 = Some (e1, TComma # r2)"
          and p2: "parse_expr k r2 = Some (c, TRParen # r)"
          by (auto simp: after_Some expect_Some split: option.splits)
        from IH p1 have "consumed r1 (TComma # r2)" by blast
        then have "consumed r1 r2" by (rule consumed_skip) simp_all
        moreover from IH p2 have "consumed r2 (TRParen # r)" by blast
        ultimately have "consumed r1 (TRParen # r)" by (rule consumed_trans)
        then have "consumed r0 r" unfolding r0 by (rule consumed_parens)
        then show ?thesis using Cons TIdent by (simp add: consumed_token)
      qed
    qed (use that Cons in simp_all)
  qed
  have postfix: "consumed ts r" if "parse_postfix_rest (Suc k) e0 ts = Some (e, r)" for ts e e0 r
  proof (cases "after TLBracket ts")
    case None
    with that show ?thesis by (simp add: consumed_refl)
  next
    case (Some r0)
    then have ts: "ts = TLBracket # r0" by (simp add: after_Some)
    from that Some obtain i r1 where
      p1: "parse_expr k r0 = Some (i, TRBracket # r1)"
      and p2: "parse_postfix_rest k (Index e0 i) r1 = Some (e, r)"
      by (auto simp: expect_Some split: option.splits)
    from IH p1 have "consumed r0 (TRBracket # r1)" by blast
    then have "consumed r0 r1" by (rule consumed_skip) simp_all
    moreover from IH p2 have "consumed r1 r" by blast
    ultimately have "consumed r0 r" by (rule consumed_trans)
    then show ?thesis unfolding ts by (simp add: consumed_token)
  qed
  have unary: "consumed ts r" if "parse_unary (Suc k) ts = Some (e, r)" for ts e r
  proof (cases "after TBang ts")
    case (Some r0)
    then have ts: "ts = TBang # r0" by (simp add: after_Some)
    from that Some obtain e1 where "parse_unary k r0 = Some (e1, r)"
      by (auto split: option.splits)
    with IH have "consumed r0 r" by blast
    then show ?thesis unfolding ts by (simp add: consumed_token)
  next
    case None
    note nb = None
    show ?thesis
    proof (cases "after TSizeof ts")
      case (Some r0)
      then have ts: "ts = TSizeof # r0" by (simp add: after_Some)
      from that nb Some obtain e1 where "parse_unary k r0 = Some (e1, r)"
        by (auto split: option.splits)
      with IH have "consumed r0 r" by blast
      then show ?thesis unfolding ts by (simp add: consumed_token)
    next
      case None
      with that nb obtain e1 r1 where
        p1: "parse_primary k ts = Some (e1, r1)"
        and p2: "parse_postfix_rest k e1 r1 = Some (e, r)"
        by (auto split: option.splits)
      from IH p1 have "consumed ts r1" by blast
      moreover from IH p2 have "consumed r1 r" by blast
      ultimately show ?thesis by (rule consumed_trans)
    qed
  qed
  have mult: "consumed ts r" if "parse_mult_rest (Suc k) e0 ts = Some (e, r)" for ts e e0 r
  proof (cases "after TSlash ts")
    case None
    with that show ?thesis by (simp add: consumed_refl)
  next
    case (Some r0)
    then have ts: "ts = TSlash # r0" by (simp add: after_Some)
    from that Some obtain e2 r1 where
      p1: "parse_unary k r0 = Some (e2, r1)"
      and p2: "parse_mult_rest k (Div e0 e2) r1 = Some (e, r)"
      by (auto split: option.splits)
    from IH p1 have "consumed r0 r1" by blast
    moreover from IH p2 have "consumed r1 r" by blast
    ultimately have "consumed r0 r" by (rule consumed_trans)
    then show ?thesis unfolding ts by (simp add: consumed_token)
  qed
  have expr: "consumed ts r" if "parse_expr (Suc k) ts = Some (e, r)" for ts e r
  proof -
    from that obtain e1 r1 where
      p1: "parse_unary k ts = Some (e1, r1)"
      and p2: "parse_mult_rest k e1 r1 = Some (e, r)"
      by (auto split: option.splits)
    from IH p1 have "consumed ts r1" by blast
    moreover from IH p2 have "consumed r1 r" by blast
    ultimately show ?thesis by (rule consumed_trans)
  qed
  from primary postfix unary mult expr show ?case by blast
qed

lemma parse_expr_consumed: "parse_expr k ts = Some (e, r) \<Longrightarrow> consumed ts r"
  using parse_consumed by blast


lemma closing_unique:
  assumes "balanced a" and "consumed (a @ TRParen # R) (TRParen # r)"
  shows "r = R"
proof -
  from assms(2) obtain q where eq: "a @ TRParen # R = q @ TRParen # r" and q: "balanced q"
    unfolding consumed_def by blast
  from eq consider u where "a = q @ u" "u @ TRParen # R = TRParen # r"
    | u where "a @ u = q" "TRParen # R = u @ TRParen # r"
    by (auto simp: append_eq_append_conv2)
  then show ?thesis
  proof cases
    case 1
    show ?thesis
    proof (cases u)
      case Nil
      with 1 show ?thesis by simp
    next
      case (Cons t u')
      with 1 have "a = q @ TRParen # u'" by simp
      with q assms(1) show ?thesis by (simp add: balanced_not_closing)
    qed
  next
    case 2
    show ?thesis
    proof (cases u)
      case Nil
      with 2 show ?thesis by simp
    next
      case (Cons t u')
      with 2 have "q = a @ TRParen # u'" by simp
      with q assms(1) show ?thesis by (simp add: balanced_not_closing)
    qed
  qed
qed

lemma parse_expr_Some:
  assumes "parse_expr k ts = Some (e, r)"
  obtains k' e1 r1 where "k = Suc k'" "parse_unary k' ts = Some (e1, r1)"
    "parse_mult_rest k' e1 r1 = Some (e, r)"
proof (cases k)
  case 0
  with assms show ?thesis by simp
next
  case (Suc k')
  with assms obtain e1 r1 where "parse_unary k' ts = Some (e1, r1)"
    "parse_mult_rest k' e1 r1 = Some (e, r)"
    by (simp split: option.splits prod.splits)
  with Suc that show ?thesis by blast
qed

lemma parse_unary_sizeof:
  assumes "parse_unary k (TSizeof # ts) = Some (e, r)"
  obtains k' e1 where "k = Suc k'" "parse_unary k' ts = Some (e1, r)" "e = SizeofE e1"
proof (cases k)
  case 0
  with assms show ?thesis by simp
next
  case (Suc k')
  with assms obtain e1 where "parse_unary k' ts = Some (e1, r)" "e = SizeofE e1"
    by (simp add: after_def split: option.splits prod.splits)
  with Suc that show ?thesis by blast
qed

lemma parse_unary_bang:
  assumes "parse_unary k (TBang # ts) = Some (e, r)"
  obtains k' e1 where "k = Suc k'" "parse_unary k' ts = Some (e1, r)" "e = Not e1"
proof (cases k)
  case 0
  with assms show ?thesis by simp
next
  case (Suc k')
  with assms obtain e1 where "parse_unary k' ts = Some (e1, r)" "e = Not e1"
    by (simp add: after_def split: option.splits prod.splits)
  with Suc that show ?thesis by blast
qed

lemma parse_unary_primary:
  assumes "parse_unary k (t # ts) = Some (e, r)" and "t \<noteq> TBang" and "t \<noteq> TSizeof"
  obtains k' e1 r1 where "k = Suc k'" "parse_primary k' (t # ts) = Some (e1, r1)"
    "parse_postfix_rest k' e1 r1 = Some (e, r)"
proof (cases k)
  case 0
  with assms show ?thesis by simp
next
  case (Suc k')
  with assms obtain e1 r1 where "parse_primary k' (t # ts) = Some (e1, r1)"
    "parse_postfix_rest k' e1 r1 = Some (e, r)"
    by (simp add: after_def split: option.splits prod.splits)
  with Suc that show ?thesis by blast
qed

lemma parse_primary_parens:
  assumes "parse_primary k (TLParen # ts) = Some (e, r)"
  obtains k' e1 where "k = Suc k'" "parse_expr k' ts = Some (e1, TRParen # r)" "e = Paren e1"
proof (cases k)
  case 0
  with assms show ?thesis by simp
next
  case (Suc k')
  with assms obtain e1 where "expect TRParen (parse_expr k' ts) = Some (e1, r)" "e = Paren e1"
    by (simp split: option.splits prod.splits)
  then have "parse_expr k' ts = Some (e1, TRParen # r)" "e = Paren e1"
    by (simp_all add: expect_Some)
  with Suc that show ?thesis by blast
qed

lemma parse_primary_number:
  assumes "parse_primary k (TNum n # ts) = Some (e, r)"
  shows "e = IntLit n \<and> r = ts"
  using assms by (cases k) auto

lemma parse_primary_builtin_expect:
  assumes "parse_primary k (TIdent ''__builtin_expect'' # TLParen # ts) = Some (e, r)"
  obtains k' e1 r1 c where "k = Suc k'" "parse_expr k' ts = Some (e1, TComma # r1)"
    "parse_expr k' r1 = Some (c, TRParen # r)" "e = BuiltinExpect e1 c"
proof (cases k)
  case 0
  with assms show ?thesis by simp
next
  case (Suc k')
  have w: "word_of ''__builtin_expect'' = WBuiltinExpect" by (simp add: word_of_def)
  from assms Suc w obtain e1 r1 c where
    "expect TComma (parse_expr k' ts) = Some (e1, r1)"
    "expect TRParen (parse_expr k' r1) = Some (c, r)" "e = BuiltinExpect e1 c"
    by (simp add: after_def split: option.splits prod.splits)
  then have "parse_expr k' ts = Some (e1, TComma # r1)"
    "parse_expr k' r1 = Some (c, TRParen # r)" "e = BuiltinExpect e1 c"
    by (simp_all add: expect_Some)
  with Suc that show ?thesis by blast
qed

lemma parse_postfix_rest_stop:
  assumes "parse_postfix_rest k e0 ts = Some (e, r)" and "after TLBracket ts = None"
  shows "e = e0 \<and> r = ts"
  using assms by (cases k) auto

lemma parse_mult_rest_stop:
  assumes "parse_mult_rest k e0 ts = Some (e, r)" and "after TSlash ts = None"
  shows "e = e0 \<and> r = ts"
  using assms by (cases k) auto

lemma parse_mult_rest_slash:
  assumes "parse_mult_rest k e0 (TSlash # ts) = Some (e, r)"
  obtains k' e2 r1 where "k = Suc k'" "parse_unary k' ts = Some (e2, r1)"
    "parse_mult_rest k' (Div e0 e2) r1 = Some (e, r)"
proof (cases k)
  case 0
  with assms show ?thesis by simp
next
  case (Suc k')
  with assms obtain e2 r1 where "parse_unary k' ts = Some (e2, r1)"
    "parse_mult_rest k' (Div e0 e2) r1 = Some (e, r)"
    by (simp add: after_def split: option.splits prod.splits)
  with Suc that show ?thesis by blast
qed


lemma parse_expr_closing:
  assumes "balanced a" and "parse_expr k (a @ TRParen # R) = Some (e, TRParen # r)"
  shows "r = R"
  using assms(1) parse_expr_consumed [OF assms(2)] by (rule closing_unique)


lemma parse_unary_sizeof_parens:
  assumes "balanced a"
    and "parse_unary k (TSizeof # TLParen # a @ TRParen # R) = Some (e, r)"
    and "after TLBracket R = None"
  obtains k' e1 where "e = SizeofE (Paren e1)" "r = R"
    "parse_expr k' (a @ TRParen # R) = Some (e1, TRParen # R)"
proof -
  from assms(2) obtain k1 u where
    u: "parse_unary k1 (TLParen # a @ TRParen # R) = Some (u, r)" and e: "e = SizeofE u"
    by (rule parse_unary_sizeof)
  from u obtain k2 p r1 where
    p: "parse_primary k2 (TLParen # a @ TRParen # R) = Some (p, r1)"
    and post: "parse_postfix_rest k2 p r1 = Some (u, r)"
    by (rule parse_unary_primary) simp_all
  from p obtain k3 e1 where
    e1: "parse_expr k3 (a @ TRParen # R) = Some (e1, TRParen # r1)" and pe: "p = Paren e1"
    by (rule parse_primary_parens)
  from assms(1) e1 have r1: "r1 = R" by (rule parse_expr_closing)
  from post have "parse_postfix_rest k2 p R = Some (u, r)" by (simp only: r1)
  then have "u = p \<and> r = R" using assms(3) by (rule parse_postfix_rest_stop)
  with e pe e1 r1 that show ?thesis by simp
qed

lemma substitute_ZN_ARRAY_LENGTH_body:
  "substitute ZN_ARRAY_LENGTH_body a =
     TLParen # TSizeof # TLParen # a @ TRParen # TSlash #
       TSizeof # TLParen # (a @ [TLBracket, TNum 0, TRBracket]) @ TRParen # [TRParen]"
  by (simp add: ZN_ARRAY_LENGTH_body_def)

lemma balanced_subscript: "balanced a \<Longrightarrow> balanced (a @ [TLBracket, TNum 0, TRBracket])"
  by (rule balanced_append) (simp_all add: balanced_def)

lemma parse_Some: "parse ts = Some e \<longleftrightarrow> parse_expr (fuel ts) ts = Some (e, [])"
  by (auto simp: parse_def split: option.splits list.splits prod.splits)

lemma after_other: "t' \<noteq> t \<Longrightarrow> after t (t' # ts) = None"
  by (simp add: after_def)

lemma parse_ZN_ARRAY_LENGTH_body:
  assumes "balanced a" and "parse_expr k (substitute ZN_ARRAY_LENGTH_body a) = Some (e, [])"
  obtains e1 e2 k1 k2 R1 R2 where
    "e = Paren (Div (SizeofE (Paren e1)) (SizeofE (Paren e2)))"
    "parse_expr k1 (a @ TRParen # R1) = Some (e1, TRParen # R1)"
    "parse_expr k2 ((a @ [TLBracket, TNum 0, TRBracket]) @ TRParen # R2) = Some (e2, TRParen # R2)"
proof -
  let ?a0 = "a @ [TLBracket, TNum 0, TRBracket]"
  let ?S2 = "TSizeof # TLParen # ?a0 @ TRParen # [TRParen]"
  let ?S1 = "TSizeof # TLParen # a @ TRParen # TSlash # ?S2"
  from assms(2) have top: "parse_expr k (TLParen # ?S1) = Some (e, [])"
    by (simp only: substitute_ZN_ARRAY_LENGTH_body)
  from top obtain k1 u r1 where
    u: "parse_unary k1 (TLParen # ?S1) = Some (u, r1)"
    and m: "parse_mult_rest k1 u r1 = Some (e, [])"
    by (rule parse_expr_Some)
  from u obtain k2 p r2 where
    p: "parse_primary k2 (TLParen # ?S1) = Some (p, r2)"
    and post: "parse_postfix_rest k2 p r2 = Some (u, r1)"
    by (rule parse_unary_primary) simp_all
  from p obtain k3 q where
    q: "parse_expr k3 ?S1 = Some (q, TRParen # r2)" and pq: "p = Paren q"
    by (rule parse_primary_parens)
  from q obtain k4 s1 r3 where
    s1: "parse_unary k4 ?S1 = Some (s1, r3)"
    and m1: "parse_mult_rest k4 s1 r3 = Some (q, TRParen # r2)"
    by (rule parse_expr_Some)
  have nb1: "after TLBracket (TSlash # ?S2) = None"
    by (rule after_other) simp
  from assms(1) s1 nb1 obtain k5 e1 where
    e1: "s1 = SizeofE (Paren e1)" and r3: "r3 = TSlash # ?S2"
    and pe1: "parse_expr k5 (a @ TRParen # TSlash # ?S2) = Some (e1, TRParen # TSlash # ?S2)"
    by (rule parse_unary_sizeof_parens)
  from m1 have "parse_mult_rest k4 s1 (TSlash # ?S2) = Some (q, TRParen # r2)"
    by (simp only: r3)
  then obtain k6 s2 r4 where
    s2: "parse_unary k6 ?S2 = Some (s2, r4)"
    and m2: "parse_mult_rest k6 (Div s1 s2) r4 = Some (q, TRParen # r2)"
    by (rule parse_mult_rest_slash)
  from assms(1) have b0: "balanced ?a0" by (rule balanced_subscript)
  have nb2: "after TLBracket [TRParen] = None"
    by (rule after_other) simp
  from b0 s2 nb2 obtain k7 e2 where
    e2: "s2 = SizeofE (Paren e2)" and r4: "r4 = [TRParen]"
    and pe2: "parse_expr k7 (?a0 @ TRParen # [TRParen]) = Some (e2, TRParen # [TRParen])"
    by (rule parse_unary_sizeof_parens)
  from m2 have m2': "parse_mult_rest k6 (Div s1 s2) [TRParen] = Some (q, TRParen # r2)"
    by (simp only: r4)
  have "after TSlash [TRParen] = None"
    by (rule after_other) simp
  with m2' have "q = Div s1 s2 \<and> TRParen # r2 = [TRParen]"
    by (rule parse_mult_rest_stop)
  then have qd: "q = Div s1 s2" and r2: "r2 = []" by simp_all
  have e_l: "after TLBracket ([]::token list) = None" and e_s: "after TSlash ([]::token list) = None"
    by (simp_all add: after_def)
  from post have "parse_postfix_rest k2 p [] = Some (u, r1)" by (simp only: r2)
  then have "u = p \<and> r1 = []" using e_l by (rule parse_postfix_rest_stop)
  then have up: "u = p" and r1: "r1 = []" by simp_all
  from m have "parse_mult_rest k1 u [] = Some (e, [])" by (simp only: r1)
  then have "e = u \<and> [] = ([]::token list)" using e_s by (rule parse_mult_rest_stop)
  with up pq qd e1 e2 have "e = Paren (Div (SizeofE (Paren e1)) (SizeofE (Paren e2)))" by simp
  with pe1 pe2 that show ?thesis by blast
qed

lemma split_arg_scan:
  "split_arg d ts = Some (a, r) \<Longrightarrow> scan d a = Some 0 \<and> ts = a @ TRParen # r"
  by (induction d ts arbitrary: a r rule: split_arg.induct) (auto split: nat.splits)

lemma split_arg_balanced: "split_arg 0 ts = Some (a, r) \<Longrightarrow> balanced a"
  by (simp add: balanced_def split_arg_scan)

lemma typeof_sizeof_quotient:
  assumes "typeof G (Paren (Div (SizeofE (Paren e1)) (SizeofE (Paren e2)))) = Inr T"
  obtains t u where "typeof G e1 = Inr t" "typeof G e2 = Inr u" "T = TSizeT"
  using assms by (auto split: sum.splits)

lemma eval_sizeof_quotient:
  assumes "typeof G e1 = Inr t" and "typeof G e2 = Inr u" and "1 \<le> sizeof (platform G) u"
  shows "eval G F (Paren (Div (SizeofE (Paren e1)) (SizeofE (Paren e2)))) s =
           Inr (VInt (int (sizeof (platform G) t div sizeof (platform G) u)), s)"
  using assms by (simp add: zdiv_int)

lemma parse_ZN_ARRAY_LENGTH_name:
  assumes "word_of x = WName"
  shows "parse (substitute ZN_ARRAY_LENGTH_body [TIdent x]) = Some (ZN_ARRAY_LENGTH (Var x))"
  using assms
  by (simp add: parse_def ZN_ARRAY_LENGTH_body_def ZN_ARRAY_LENGTH_def after_def expect_def)

lemma parse_gnuc_hint_body:
  assumes "balanced x"
    and "parse_expr k (TIdent ''__builtin_expect'' # TLParen # TBang # TBang # TLParen # x @
                 TRParen # TComma # TNum n # [TRParen]) = Some (e, [])"
  obtains c k' R where "e = BuiltinExpect (Not (Not (Paren c))) (IntLit n)"
    "parse_expr k' (x @ TRParen # R) = Some (c, TRParen # R)"
proof -
  let ?tail = "TComma # TNum n # [TRParen]"
  let ?inner = "TBang # TBang # TLParen # x @ TRParen # ?tail"
  let ?all = "TIdent ''__builtin_expect'' # TLParen # ?inner"
  have e_l: "after TLBracket ([]::token list) = None" and e_s: "after TSlash ([]::token list) = None"
    by (simp_all add: after_def)
  note top = assms(2)
  from top obtain k1 u r1 where
    u: "parse_unary k1 ?all = Some (u, r1)" and m: "parse_mult_rest k1 u r1 = Some (e, [])"
    by (rule parse_expr_Some)
  from u obtain k2 p r2 where
    p: "parse_primary k2 ?all = Some (p, r2)" and post: "parse_postfix_rest k2 p r2 = Some (u, r1)"
    by (rule parse_unary_primary) simp_all
  from p obtain k3 e1 r3 c' where
    first: "parse_expr k3 ?inner = Some (e1, TComma # r3)"
    and second: "parse_expr k3 r3 = Some (c', TRParen # r2)"
    and pe: "p = BuiltinExpect e1 c'"
    by (rule parse_primary_builtin_expect)
  from first obtain k4 v r4 where
    v: "parse_unary k4 ?inner = Some (v, r4)"
    and m1: "parse_mult_rest k4 v r4 = Some (e1, TComma # r3)"
    by (rule parse_expr_Some)
  from v obtain k5 v1 where
    v1: "parse_unary k5 (TBang # TLParen # x @ TRParen # ?tail) = Some (v1, r4)" and vn: "v = Not v1"
    by (rule parse_unary_bang)
  from v1 obtain k6 w where
    w: "parse_unary k6 (TLParen # x @ TRParen # ?tail) = Some (w, r4)" and v1n: "v1 = Not w"
    by (rule parse_unary_bang)
  from w obtain k7 pp r5 where
    pp: "parse_primary k7 (TLParen # x @ TRParen # ?tail) = Some (pp, r5)"
    and post1: "parse_postfix_rest k7 pp r5 = Some (w, r4)"
    by (rule parse_unary_primary) simp_all
  from pp obtain k8 c where
    c: "parse_expr k8 (x @ TRParen # ?tail) = Some (c, TRParen # r5)" and ppc: "pp = Paren c"
    by (rule parse_primary_parens)
  from assms(1) c have r5: "r5 = ?tail" by (rule parse_expr_closing)
  from post1 have "parse_postfix_rest k7 pp ?tail = Some (w, r4)" by (simp only: r5)
  moreover have "after TLBracket ?tail = None" by (rule after_other) simp
  ultimately have "w = pp \<and> r4 = ?tail" by (rule parse_postfix_rest_stop)
  then have wpp: "w = pp" and r4: "r4 = ?tail" by simp_all
  from m1 have "parse_mult_rest k4 v ?tail = Some (e1, TComma # r3)" by (simp only: r4)
  moreover have "after TSlash ?tail = None" by (rule after_other) simp
  ultimately have "e1 = v \<and> TComma # r3 = ?tail" by (rule parse_mult_rest_stop)
  then have e1v: "e1 = v" and r3: "r3 = TNum n # [TRParen]" by simp_all
  from second have "parse_expr k3 (TNum n # [TRParen]) = Some (c', TRParen # r2)"
    by (simp only: r3)
  then obtain k9 y r6 where
    y: "parse_unary k9 (TNum n # [TRParen]) = Some (y, r6)"
    and m2: "parse_mult_rest k9 y r6 = Some (c', TRParen # r2)"
    by (rule parse_expr_Some)
  from y obtain k10 z r7 where
    z: "parse_primary k10 (TNum n # [TRParen]) = Some (z, r7)"
    and post2: "parse_postfix_rest k10 z r7 = Some (y, r6)"
    by (rule parse_unary_primary) simp_all
  from z have zn: "z = IntLit n \<and> r7 = [TRParen]" by (rule parse_primary_number)
  from post2 zn have "parse_postfix_rest k10 z [TRParen] = Some (y, r6)" by simp
  moreover have "after TLBracket [TRParen] = None" by (rule after_other) simp
  ultimately have "y = z \<and> r6 = [TRParen]" by (rule parse_postfix_rest_stop)
  then have yz: "y = z" and r6: "r6 = [TRParen]" by simp_all
  from m2 have "parse_mult_rest k9 y [TRParen] = Some (c', TRParen # r2)" by (simp only: r6)
  moreover have "after TSlash [TRParen] = None" by (rule after_other) simp
  ultimately have "c' = y \<and> TRParen # r2 = [TRParen]" by (rule parse_mult_rest_stop)
  then have c'y: "c' = y" and r2: "r2 = []" by simp_all
  from post have "parse_postfix_rest k2 p [] = Some (u, r1)" by (simp only: r2)
  then have "u = p \<and> r1 = []" using e_l by (rule parse_postfix_rest_stop)
  then have up: "u = p" and r1: "r1 = []" by simp_all
  from m have "parse_mult_rest k1 u [] = Some (e, [])" by (simp only: r1)
  then have "e = u \<and> [] = ([]::token list)" using e_s by (rule parse_mult_rest_stop)
  with up pe e1v vn v1n wpp ppc c'y yz zn
  have "e = BuiltinExpect (Not (Not (Paren c))) (IntLit n)" by simp
  moreover from c r5 have "parse_expr k8 (x @ TRParen # ?tail) = Some (c, TRParen # ?tail)"
    by simp
  ultimately show ?thesis using that by blast
qed

lemma parse_ZN_LIKELY_body_gnuc:
  assumes "balanced x" and "parse_expr k (substitute (ZN_LIKELY_body True) x) = Some (e, [])"
  obtains c where "e = ZN_LIKELY True c"
proof -
  from assms(2) have "parse_expr k (TIdent ''__builtin_expect'' # TLParen # TBang # TBang # TLParen # x @
                 TRParen # TComma # TNum 1 # [TRParen]) = Some (e, [])"
    by (simp add: ZN_LIKELY_body_def)
  with assms(1) obtain c where "e = BuiltinExpect (Not (Not (Paren c))) (IntLit 1)"
    by (rule parse_gnuc_hint_body)
  then have "e = ZN_LIKELY True c" by (simp add: ZN_LIKELY_def)
  then show ?thesis by (rule that)
qed

lemma parse_ZN_UNLIKELY_body_gnuc:
  assumes "balanced x" and "parse_expr k (substitute (ZN_UNLIKELY_body True) x) = Some (e, [])"
  obtains c where "e = ZN_UNLIKELY True c"
proof -
  from assms(2) have "parse_expr k (TIdent ''__builtin_expect'' # TLParen # TBang # TBang # TLParen # x @
                 TRParen # TComma # TNum 0 # [TRParen]) = Some (e, [])"
    by (simp add: ZN_UNLIKELY_body_def)
  with assms(1) obtain c where "e = BuiltinExpect (Not (Not (Paren c))) (IntLit 0)"
    by (rule parse_gnuc_hint_body)
  then have "e = ZN_UNLIKELY True c" by (simp add: ZN_UNLIKELY_def)
  then show ?thesis by (rule that)
qed

lemma substitute_fallback:
  "substitute (ZN_LIKELY_body False) x = x" "substitute (ZN_UNLIKELY_body False) x = x"
  by (simp_all add: ZN_LIKELY_body_def ZN_UNLIKELY_body_def)

lemmas parse_eval_simps =
  parse_def compile_def macros_def after_def expect_def word_of_def
  ZN_ARRAY_LENGTH_body_def ZN_LIKELY_body_def ZN_UNLIKELY_body_def

lemma demo_sizes:
  "sizeof (platform demo_env) TInt = 4"
  "sizeof (platform demo_env) TBool = 1"
  "sizeof (platform demo_env) (TArray TInt 10) = 40"
  by (simp_all add: platform_demo lp64_def)

section \<open>\<^verbatim>\<open>ZN_ARRAY_LENGTH\<close>\<close>

text \<open>
  Claim C1.  For an argument whose static type is an array of \<open>n\<close> elements of any
  element type, \<^verbatim>\<open>ZN_ARRAY_LENGTH\<close> compiles, has type \<^verbatim>\<open>size_t\<close> and evaluates to
  exactly \<open>n\<close>, in every store and without changing it.  Every array type the compiler
  accepts has \<open>n \<ge> 1\<close>.  The example instantiates it with a \<^verbatim>\<open>double[1]\<close> and a
  \<^verbatim>\<open>Vec3[1024]\<close>.
\<close>

theorem ZN_ARRAY_LENGTH_array:
  assumes "wf_abi (platform G)" and "typeof G a = Inr (TArray t n)"
  shows "1 \<le> n
       \<and> typeof G (ZN_ARRAY_LENGTH a) = Inr TSizeT
       \<and> eval G F (ZN_ARRAY_LENGTH a) s = Inr (VInt (int n), s)"
proof -
  have c: "complete (platform G) (TArray t n)"
    using assms by (rule typeof_complete)
  then have "complete (platform G) t" by simp
  with assms(1) have "1 \<le> sizeof (platform G) t" by (rule sizeof_pos)
  then show ?thesis
    using assms(2) c by (simp add: typeof_ZN_ARRAY_LENGTH eval_ZN_ARRAY_LENGTH)
qed

theorem ZN_ARRAY_LENGTH_array_witness:
  "wf_abi (platform demo_env)
   \<and> typeof demo_env (Var ''one'') = Inr (TArray TDouble 1)
   \<and> eval demo_env demo_bodies (ZN_ARRAY_LENGTH (Var ''one'')) demo_store = Inr (VInt 1, demo_store)
   \<and> typeof demo_env (Var ''big'') = Inr (TArray (TClass ''Vec3'') 1024)
   \<and> eval demo_env demo_bodies (ZN_ARRAY_LENGTH (Var ''big'')) demo_store = Inr (VInt 1024, demo_store)"
proof -
  note one = ZN_ARRAY_LENGTH_array [OF wf_demo typeof_demo_vars(1), of demo_bodies demo_store]
  note big = ZN_ARRAY_LENGTH_array [OF wf_demo typeof_demo_vars(2), of demo_bodies demo_store]
  from wf_demo one big show ?thesis
    by (simp del: typeof.simps add: typeof_demo_vars)
qed

text \<open>
  Claim C3.  Given a pointer to a complete element type \<open>t\<close>, which is what an array of
  \<open>t\<close> of any length decays to, \<^verbatim>\<open>ZN_ARRAY_LENGTH\<close> compiles and evaluates without an
  error to the size of a pointer divided by the size of \<open>t\<close>, and there is an array
  length \<open>n \<ge> 1\<close> that this value differs from.  In the example an \<^verbatim>\<open>int[10]\<close> seen
  through an \<^verbatim>\<open>int*\<close> gives 2 on LP64.
\<close>

theorem ZN_ARRAY_LENGTH_pointer:
  assumes "wf_abi (platform G)" and "complete (platform G) t"
    and "typeof G q = Inr (TPtr t)"
  shows "typeof G (ZN_ARRAY_LENGTH q) = Inr TSizeT
       \<and> eval G F (ZN_ARRAY_LENGTH q) s =
           Inr (VInt (int (sizeof_pointer (platform G) div sizeof (platform G) t)), s)
       \<and> (\<exists>n\<ge>1. decay (TArray t n) = TPtr t
              \<and> eval G F (ZN_ARRAY_LENGTH q) s \<noteq> Inr (VInt (int n), s))"
proof -
  have st: "subscript_type (platform G) (TPtr t) = Inr t"
    using assms(2) by simp
  have ty: "typeof G (ZN_ARRAY_LENGTH q) = Inr TSizeT"
    using assms(1,3) st by (rule ZN_ARRAY_LENGTH_subscriptable(2))
  have ev: "eval G F (ZN_ARRAY_LENGTH q) s =
           Inr (VInt (int (sizeof_pointer (platform G) div sizeof (platform G) t)), s)"
    using ZN_ARRAY_LENGTH_subscriptable(3) [OF assms(1,3) st] by simp
  define n where "n = Suc (sizeof_pointer (platform G) div sizeof (platform G) t)"
  have "1 \<le> n" and "n \<noteq> sizeof_pointer (platform G) div sizeof (platform G) t"
    by (simp_all add: n_def)
  then have "1 \<le> n \<and> decay (TArray t n) = TPtr t
      \<and> eval G F (ZN_ARRAY_LENGTH q) s \<noteq> Inr (VInt (int n), s)"
    using ev by simp
  then have "\<exists>n\<ge>1. decay (TArray t n) = TPtr t
      \<and> eval G F (ZN_ARRAY_LENGTH q) s \<noteq> Inr (VInt (int n), s)"
    by blast
  with ty ev show ?thesis by blast
qed

theorem ZN_ARRAY_LENGTH_pointer_witness:
  "wf_abi (platform demo_env)
   \<and> complete (platform demo_env) TInt
   \<and> typeof demo_env (Var ''a'') = Inr (TArray TInt 10)
   \<and> typeof demo_env (Var ''p'') = Inr (decay (TArray TInt 10))
   \<and> eval demo_env demo_bodies (ZN_ARRAY_LENGTH (Var ''p'')) demo_store = Inr (VInt 2, demo_store)
   \<and> eval demo_env demo_bodies (ZN_ARRAY_LENGTH (Var ''p'')) demo_store \<noteq> Inr (VInt 10, demo_store)"
proof -
  have c: "complete (platform demo_env) TInt" by simp
  have p: "typeof demo_env (Var ''p'') = Inr (TPtr TInt)" by (rule typeof_demo_vars)
  note r = ZN_ARRAY_LENGTH_pointer [OF wf_demo c p, of demo_bodies demo_store]
  have "sizeof_pointer (platform demo_env) div sizeof (platform demo_env) TInt = 2"
    by (simp add: platform_demo lp64_def)
  with r have "eval demo_env demo_bodies (ZN_ARRAY_LENGTH (Var ''p'')) demo_store = Inr (VInt 2, demo_store)"
    by simp
  with wf_demo c show ?thesis
    by (simp del: typeof.simps add: typeof_demo_vars)
qed

text \<open>
  Claim C7, as stated, fails on an argument of type \<^verbatim>\<open>int\<close>, which is a complete
  object type: \<^verbatim>\<open>ZN_ARRAY_LENGTH(n)\<close> expands to \<^verbatim>\<open>(sizeof(n) / sizeof(n[0]))\<close> with
  either compiler, \<^verbatim>\<open>n[0]\<close> has no type, and the expansion is rejected and yields no
  value.
\<close>

theorem ZN_ARRAY_LENGTH_rejects_int:
  "wf_abi (platform demo_env)
   \<and> complete (platform demo_env) TInt
   \<and> typeof demo_env (Var ''n'') = Inr TInt
   \<and> compile True [TIdent ''ZN_ARRAY_LENGTH'', TLParen, TIdent ''n'', TRParen]
        = Some (ZN_ARRAY_LENGTH (Var ''n''))
   \<and> compile False [TIdent ''ZN_ARRAY_LENGTH'', TLParen, TIdent ''n'', TRParen]
        = Some (ZN_ARRAY_LENGTH (Var ''n''))
   \<and> typeof demo_env (ZN_ARRAY_LENGTH (Var ''n'')) = Inl (NotSubscriptable TInt)
   \<and> eval demo_env demo_bodies (ZN_ARRAY_LENGTH (Var ''n'')) demo_store = Inl (NotSubscriptable TInt)"
proof -
  have c: "compile g [TIdent ''ZN_ARRAY_LENGTH'', TLParen, TIdent ''n'', TRParen]
        = Some (ZN_ARRAY_LENGTH (Var ''n''))" for g
    by (simp add: parse_eval_simps ZN_ARRAY_LENGTH_def)
  have "typeof demo_env (ZN_ARRAY_LENGTH (Var ''n'')) = Inl (NotSubscriptable TInt)"
    and "eval demo_env demo_bodies (ZN_ARRAY_LENGTH (Var ''n'')) demo_store = Inl (NotSubscriptable TInt)"
    by (simp_all add: typeof_ZN_ARRAY_LENGTH eval_ZN_ARRAY_LENGTH typeof_demo_vars del: typeof.simps)
  with wf_demo c typeof_demo_vars(9) show ?thesis by simp
qed

text \<open>
  Claim C7, amended.  For every balanced argument for which the expansion
  \<^verbatim>\<open>(sizeof(a) / sizeof(a[0]))\<close> parses (with any amount of fuel) and has a type,
  that type is \<^verbatim>\<open>size_t\<close>, the
  operands of both \<^verbatim>\<open>sizeof\<close> have complete object types, the divisor is at least 1,
  and the expansion evaluates to the quotient of the two sizes in every store and leaves
  the store as it was: no division by zero and no other fault.  The macro is not total
  over the arguments of complete object type: for a variable whose type cannot be
  subscripted, such as an \<^verbatim>\<open>int\<close>, the expansion is rejected by the compiler.
\<close>

theorem ZN_ARRAY_LENGTH_yields_where_it_compiles:
  assumes "wf_abi (platform G)" and "balanced a"
    and "parse_expr k (substitute ZN_ARRAY_LENGTH_body a) = Some (e, [])"
    and "typeof G e = Inr T"
  shows "T = TSizeT
       \<and> (\<exists>e1 e2 t u.
             e = Paren (Div (SizeofE (Paren e1)) (SizeofE (Paren e2)))
           \<and> typeof G e1 = Inr t \<and> typeof G e2 = Inr u
           \<and> 1 \<le> sizeof (platform G) u
           \<and> eval G F e s = Inr (VInt (int (sizeof (platform G) t div sizeof (platform G) u)), s))
       \<and> (\<forall>x t err. word_of x = WName \<and> typeof G (Var x) = Inr t
              \<and> subscript_type (platform G) t = Inl err \<longrightarrow>
            (\<exists>e'. parse (substitute ZN_ARRAY_LENGTH_body [TIdent x]) = Some e'
                 \<and> typeof G e' = Inl err))"
proof -
  from assms(2,3) obtain e1 e2 where
    e: "e = Paren (Div (SizeofE (Paren e1)) (SizeofE (Paren e2)))"
    by (rule parse_ZN_ARRAY_LENGTH_body)
  from assms(4) obtain t u where
    t: "typeof G e1 = Inr t" and u: "typeof G e2 = Inr u" and T: "T = TSizeT"
    unfolding e by (rule typeof_sizeof_quotient)
  from assms(1) u have "complete (platform G) u" by (rule typeof_complete)
  with assms(1) have pos: "1 \<le> sizeof (platform G) u" by (rule sizeof_pos)
  from t u pos have
    "eval G F e s = Inr (VInt (int (sizeof (platform G) t div sizeof (platform G) u)), s)"
    unfolding e by (rule eval_sizeof_quotient)
  with e t u pos have yields: "\<exists>e1 e2 t u.
             e = Paren (Div (SizeofE (Paren e1)) (SizeofE (Paren e2)))
           \<and> typeof G e1 = Inr t \<and> typeof G e2 = Inr u
           \<and> 1 \<le> sizeof (platform G) u
           \<and> eval G F e s = Inr (VInt (int (sizeof (platform G) t div sizeof (platform G) u)), s)"
    by blast
  have rejected: "\<exists>e'. parse (substitute ZN_ARRAY_LENGTH_body [TIdent x]) = Some e'
                 \<and> typeof G e' = Inl err"
    if "word_of x = WName" and "typeof G (Var x) = Inr t" and "subscript_type (platform G) t = Inl err"
    for x t err
  proof -
    from that(1) have "parse (substitute ZN_ARRAY_LENGTH_body [TIdent x]) = Some (ZN_ARRAY_LENGTH (Var x))"
      by (rule parse_ZN_ARRAY_LENGTH_name)
    moreover from that(2,3) have "typeof G (ZN_ARRAY_LENGTH (Var x)) = Inl err"
      by (simp add: typeof_ZN_ARRAY_LENGTH del: typeof.simps)
    ultimately show ?thesis by blast
  qed
  from T yields rejected show ?thesis by blast
qed

theorem ZN_ARRAY_LENGTH_yields_where_it_compiles_witness:
  "wf_abi (platform demo_env)
   \<and> balanced [TBang, TIdent ''a'']
   \<and> parse (substitute ZN_ARRAY_LENGTH_body [TBang, TIdent ''a'']) =
        Some (Paren (Div (SizeofE (Paren (Not (Var ''a''))))
                         (SizeofE (Paren (Not (Index (Var ''a'') (IntLit 0)))))))
   \<and> typeof demo_env (Paren (Div (SizeofE (Paren (Not (Var ''a''))))
                         (SizeofE (Paren (Not (Index (Var ''a'') (IntLit 0))))))) = Inr TSizeT
   \<and> eval demo_env demo_bodies (Paren (Div (SizeofE (Paren (Not (Var ''a''))))
                         (SizeofE (Paren (Not (Index (Var ''a'') (IntLit 0))))))) demo_store
        = Inr (VInt 1, demo_store)
   \<and> balanced [TIdent ''grid'']
   \<and> parse (substitute ZN_ARRAY_LENGTH_body [TIdent ''grid'']) = Some (ZN_ARRAY_LENGTH (Var ''grid''))
   \<and> typeof demo_env (ZN_ARRAY_LENGTH (Var ''grid'')) = Inr TSizeT
   \<and> eval demo_env demo_bodies (ZN_ARRAY_LENGTH (Var ''grid'')) demo_store = Inr (VInt 3, demo_store)
   \<and> word_of ''n'' = WName
   \<and> typeof demo_env (Var ''n'') = Inr TInt
   \<and> subscript_type (platform demo_env) TInt = Inl (NotSubscriptable TInt)
   \<and> (\<exists>e'. parse (substitute ZN_ARRAY_LENGTH_body [TIdent ''n'']) = Some e'
            \<and> typeof demo_env e' = Inl (NotSubscriptable TInt))"
proof -
  let ?E = "Paren (Div (SizeofE (Paren (Not (Var ''a''))))
                         (SizeofE (Paren (Not (Index (Var ''a'') (IntLit 0))))))"
  have b1: "balanced [TBang, TIdent ''a'']" and b2: "balanced [TIdent ''grid'']"
    by (simp_all add: balanced_def)
  have p1: "parse (substitute ZN_ARRAY_LENGTH_body [TBang, TIdent ''a'']) = Some ?E"
    by (simp add: parse_eval_simps)
  have wn: "word_of ''grid'' = WName" "word_of ''n'' = WName"
    by (simp_all add: word_of_def)
  have p2: "parse (substitute ZN_ARRAY_LENGTH_body [TIdent ''grid'']) = Some (ZN_ARRAY_LENGTH (Var ''grid''))"
    using wn(1) by (rule parse_ZN_ARRAY_LENGTH_name)
  have ta: "typeof demo_env (Not (Var ''a'')) = Inr TBool"
    "typeof demo_env (Not (Index (Var ''a'') (IntLit 0))) = Inr TBool"
    using typeof_demo_vars(4)
    by (simp_all add: literal_type_0 integral_def scalar_def del: typeof.simps(1))
  then have t1: "typeof demo_env ?E = Inr TSizeT"
    by (simp del: typeof.simps(6,7))
  have t2: "typeof demo_env (ZN_ARRAY_LENGTH (Var ''grid'')) = Inr TSizeT"
    using typeof_demo_vars(3) by (simp add: typeof_ZN_ARRAY_LENGTH del: typeof.simps)
  have st: "subscript_type (platform demo_env) TInt = Inl (NotSubscriptable TInt)"
    by simp
  note r1 = ZN_ARRAY_LENGTH_yields_where_it_compiles
    [OF wf_demo b1 p1 [unfolded parse_Some] t1, of demo_bodies demo_store]
  note r2 = ZN_ARRAY_LENGTH_yields_where_it_compiles
    [OF wf_demo b2 p2 [unfolded parse_Some] t2, of demo_bodies demo_store]
  from r1 ta have e1: "eval demo_env demo_bodies ?E demo_store = Inr (VInt 1, demo_store)"
    by (auto simp: demo_sizes simp del: typeof.simps eval.simps sizeof.simps)
  from r2 typeof_demo_vars(3)
  have e2: "eval demo_env demo_bodies (ZN_ARRAY_LENGTH (Var ''grid'')) demo_store = Inr (VInt 3, demo_store)"
    by (auto simp: ZN_ARRAY_LENGTH_def literal_type_0 integral_def platform_demo lp64_def
        simp del: typeof.simps(1) eval.simps)
  from r1 wn(2) typeof_demo_vars(9) st
  have rej: "\<exists>e'. parse (substitute ZN_ARRAY_LENGTH_body [TIdent ''n'']) = Some e'
            \<and> typeof demo_env e' = Inl (NotSubscriptable TInt)"
    by blast
  from wf_demo b1 p1 t1 e1 b2 p2 t2 e2 wn(2) typeof_demo_vars(9) st rej show ?thesis
    by blast
qed

text \<open>
  Claim C8.  Two uses of \<^verbatim>\<open>ZN_ARRAY_LENGTH\<close> on the same platform whose arguments have
  the same static type have the same outcome, whatever the arguments, the function
  bodies and the stores are; and a use that yields a value leaves the store as it was,
  so no effect of the argument takes place.  In the example two arrays of different
  contents both give 10, and \<^verbatim>\<open>ZN_ARRAY_LENGTH(grid[next()])\<close> is 5 without running
  \<^verbatim>\<open>next\<close>, which would have changed \<^verbatim>\<open>i\<close>.
\<close>

theorem ZN_ARRAY_LENGTH_static:
  assumes "platform G' = platform G" and "typeof G' a' = typeof G a"
  shows "outcome (eval G' F' (ZN_ARRAY_LENGTH a') s') = outcome (eval G F (ZN_ARRAY_LENGTH a) s)
       \<and> (\<forall>v s1. eval G F (ZN_ARRAY_LENGTH a) s = Inr (v, s1) \<longrightarrow> s1 = s)"
  using assms
  by (auto simp: eval_ZN_ARRAY_LENGTH outcome_def split: sum.splits if_splits)

theorem ZN_ARRAY_LENGTH_static_witness:
  "platform demo_env = platform demo_env
   \<and> typeof demo_env (Var ''b'') = typeof demo_env (Var ''a'')
   \<and> demo_store ''a'' \<noteq> demo_store ''b''
   \<and> outcome (eval demo_env demo_bodies (ZN_ARRAY_LENGTH (Var ''b'')) demo_store)
       = outcome (eval demo_env Map.empty (ZN_ARRAY_LENGTH (Var ''a'')) Map.empty)
   \<and> eval demo_env demo_bodies (Call ''next'') demo_store = Inr (VInt 0, demo_store(''i'' \<mapsto> VInt 1))
   \<and> eval demo_env demo_bodies (ZN_ARRAY_LENGTH (Index (Var ''grid'') (Call ''next''))) demo_store
       = Inr (VInt 5, demo_store)"
proof -
  have ab: "typeof demo_env (Var ''b'') = typeof demo_env (Var ''a'')"
    by (simp only: typeof_demo_vars)
  note r = ZN_ARRAY_LENGTH_static [OF refl ab, of demo_bodies demo_store Map.empty Map.empty]
  have diff: "demo_store ''a'' \<noteq> demo_store ''b''"
    by (simp add: demo_store_def)
  have nx: "eval demo_env demo_bodies (Call ''next'') demo_store = Inr (VInt 0, demo_store(''i'' \<mapsto> VInt 1))"
    by (simp add: demo_bodies_def next_body_def demo_store_def)
  have row: "typeof demo_env (Index (Var ''grid'') (Call ''next'')) = Inr (TArray TInt 5)"
    by (simp add: demo_env_def declared_def lp64_def size_t_bits_def integral_def)
  have "eval demo_env demo_bodies (ZN_ARRAY_LENGTH (Index (Var ''grid'') (Call ''next''))) demo_store
       = Inr (VInt 5, demo_store)"
    using row by (simp add: eval_ZN_ARRAY_LENGTH platform_demo lp64_def del: typeof.simps)
  with r ab diff nx show ?thesis by blast
qed

text \<open>
  Claim C10.  For an argument of array type with \<open>n\<close> elements, \<^verbatim>\<open>ZN_ARRAY_LENGTH\<close>
  has the unsigned type \<^verbatim>\<open>size_t\<close>; its value \<open>n\<close> is found at compile time, with no
  store and no function body, and is what evaluation gives; it lies in
  \<open>0 .. 2 ^ size_t_bits - 1\<close>; and the division of the array's size by the element's size
  leaves no remainder.
\<close>

theorem ZN_ARRAY_LENGTH_unsigned_constant:
  assumes "wf_abi (platform G)" and "typeof G a = Inr (TArray t n)"
  shows "typeof G (ZN_ARRAY_LENGTH a) = Inr TSizeT
       \<and> const_eval G (ZN_ARRAY_LENGTH a) = Some (VInt (int n))
       \<and> eval G F (ZN_ARRAY_LENGTH a) s = Inr (VInt (int n), s)
       \<and> size_t_value (platform G) (VInt (int n))
       \<and> sizeof (platform G) (TArray t n) mod sizeof (platform G) t = 0
       \<and> sizeof (platform G) (TArray t n) div sizeof (platform G) t = n"
proof -
  have c: "complete (platform G) (TArray t n)"
    using assms by (rule typeof_complete)
  then have ct: "complete (platform G) t"
    and fit: "n * sizeof (platform G) t < 2 ^ size_t_bits (platform G)"
    by simp_all
  from assms(1) ct have pos: "1 \<le> sizeof (platform G) t" by (rule sizeof_pos)
  then have "n * 1 \<le> n * sizeof (platform G) t" by (rule mult_le_mono2)
  then have "n \<le> n * sizeof (platform G) t" by (simp only: mult_1_right)
  with fit have "n < 2 ^ size_t_bits (platform G)" by (rule le_less_trans [rotated])
  then have "int n < int (2 ^ size_t_bits (platform G))" by (simp only: of_nat_less_iff)
  then have range: "size_t_value (platform G) (VInt (int n))"
    by (simp add: size_t_value_def)
  have st: "subscript_type (platform G) (TArray t n) = Inr t" by simp
  note r = ZN_ARRAY_LENGTH_subscriptable [OF assms st]
  from pos have q: "sizeof (platform G) (TArray t n) div sizeof (platform G) t = n"
    by simp
  have m: "sizeof (platform G) (TArray t n) mod sizeof (platform G) t = 0"
    by simp
  from r(2) r(3) [of F s] r(4) q m range show ?thesis by simp
qed

theorem ZN_ARRAY_LENGTH_unsigned_constant_witness:
  "wf_abi (platform demo_env)
   \<and> typeof demo_env (Var ''big'') = Inr (TArray (TClass ''Vec3'') 1024)
   \<and> const_eval demo_env (ZN_ARRAY_LENGTH (Var ''big'')) = Some (VInt 1024)
   \<and> size_t_value (platform demo_env) (VInt 1024)
   \<and> sizeof (platform demo_env) (TArray (TClass ''Vec3'') 1024) = 12288"
proof -
  note r = ZN_ARRAY_LENGTH_unsigned_constant [OF wf_demo typeof_demo_vars(2), of demo_bodies demo_store]
  have "sizeof (platform demo_env) (TArray (TClass ''Vec3'') 1024) = 12288"
    by (simp add: platform_demo lp64_def class_size_def)
  with wf_demo r show ?thesis
    by (simp del: typeof.simps sizeof.simps add: typeof_demo_vars)
qed

section \<open>\<^verbatim>\<open>ZN_LIKELY\<close> and \<^verbatim>\<open>ZN_UNLIKELY\<close>\<close>

text \<open>
  Claim C2.  Whether or not \<^verbatim>\<open>__GNUC__\<close> is defined (\<open>g\<close>), when an expression of
  type \<^verbatim>\<open>bool\<close> evaluates to the boolean \<open>b\<close>, \<^verbatim>\<open>ZN_LIKELY\<close> and \<^verbatim>\<open>ZN_UNLIKELY\<close>
  of it evaluate to the same \<open>b\<close> and leave the same store.  With \<^verbatim>\<open>__GNUC__\<close> the
  result has type \<^verbatim>\<open>long\<close> (0 or 1), which compares equal to \<open>b\<close>; without it the
  result keeps the type \<^verbatim>\<open>bool\<close>.  The example runs the literals \<^verbatim>\<open>true\<close> and
  \<^verbatim>\<open>false\<close> through both definitions of both macros.
\<close>

theorem hints_identity_on_bool:
  assumes "wf_abi (platform G)" and "typeof G x = Inr TBool"
    and "eval G F x s = Inr (of_truth b, s')"
  shows "eval G F (ZN_LIKELY g x) s = Inr (of_truth b, s')
       \<and> eval G F (ZN_UNLIKELY g x) s = Inr (of_truth b, s')
       \<and> typeof G (ZN_LIKELY g x) = Inr (if g then TLong else TBool)
       \<and> typeof G (ZN_UNLIKELY g x) = Inr (if g then TLong else TBool)"
proof (cases g)
  case True
  have "typeof G (ZN_LIKELY True x) = Inr TLong" and "typeof G (ZN_UNLIKELY True x) = Inr TLong"
    using assms(1,2) by (simp_all add: ZN_LIKELY_def ZN_UNLIKELY_def typeof_hint_bool del: typeof.simps)
  then show ?thesis
    using True eval_ZN_LIKELY_gnuc [OF assms(1,3) to_bool_of_truth]
      eval_ZN_UNLIKELY_gnuc [OF assms(1,3) to_bool_of_truth]
    by simp
next
  case False
  then show ?thesis
    using assms(2,3) by (simp add: ZN_LIKELY_def ZN_UNLIKELY_def)
qed

theorem hints_identity_on_bool_witness:
  "wf_abi (platform demo_env)
   \<and> eval demo_env demo_bodies (ZN_LIKELY True (BoolLit True)) demo_store = Inr (of_truth True, demo_store)
   \<and> eval demo_env demo_bodies (ZN_UNLIKELY True (BoolLit True)) demo_store = Inr (of_truth True, demo_store)
   \<and> eval demo_env demo_bodies (ZN_LIKELY True (BoolLit False)) demo_store = Inr (of_truth False, demo_store)
   \<and> eval demo_env demo_bodies (ZN_UNLIKELY True (BoolLit False)) demo_store = Inr (of_truth False, demo_store)
   \<and> eval demo_env demo_bodies (ZN_LIKELY False (BoolLit True)) demo_store = Inr (of_truth True, demo_store)
   \<and> eval demo_env demo_bodies (ZN_UNLIKELY False (BoolLit True)) demo_store = Inr (of_truth True, demo_store)
   \<and> eval demo_env demo_bodies (ZN_LIKELY False (BoolLit False)) demo_store = Inr (of_truth False, demo_store)
   \<and> eval demo_env demo_bodies (ZN_UNLIKELY False (BoolLit False)) demo_store = Inr (of_truth False, demo_store)"
proof -
  have t: "typeof demo_env (BoolLit b) = Inr TBool" for b
    by simp
  have e: "eval demo_env demo_bodies (BoolLit b) demo_store = Inr (of_truth b, demo_store)" for b
    by simp
  note h = hints_identity_on_bool [OF wf_demo t e]
  from wf_demo h [of True True] h [of True False] h [of False True] h [of False False]
  show ?thesis by blast
qed

text \<open>
  Claim C4.  Without \<^verbatim>\<open>__GNUC__\<close> the replacement list of each hint macro is the bare
  parameter, so the tokens of the argument are pasted without parentheses and regroup
  under an operator that binds tighter than one of theirs.  With \<^verbatim>\<open>int n\<close> and
  \<^verbatim>\<open>int a[10]\<close>, \<^verbatim>\<open>!ZN_LIKELY(sizeof(n) / sizeof(a))\<close> becomes
  \<^verbatim>\<open>!sizeof(n) / sizeof(a)\<close>, that is \<^verbatim>\<open>(!sizeof(n)) / sizeof(a)\<close>, and evaluates to
  0.  The condition itself evaluates to 0, so its negation, and the same text without
  the hint, evaluate to 1; so does the hinted text when \<^verbatim>\<open>__GNUC__\<close> is defined, where
  the replacement list writes \<^verbatim>\<open>!!(x)\<close>.  The same holds for \<^verbatim>\<open>ZN_UNLIKELY\<close>.
\<close>

theorem fallback_hint_regroups:
  "preprocess False (negated ''ZN_LIKELY'') = Some (TBang # cond_tokens)
   \<and> preprocess False (negated ''ZN_UNLIKELY'') = Some (TBang # cond_tokens)
   \<and> compile False (negated ''ZN_LIKELY'') = Some (Div (Not (SizeofE (Paren (Var ''n'')))) (SizeofE (Paren (Var ''a''))))
   \<and> compile False (negated ''ZN_UNLIKELY'') = Some (Div (Not (SizeofE (Paren (Var ''n'')))) (SizeofE (Paren (Var ''a''))))
   \<and> typeof demo_env (Div (Not (SizeofE (Paren (Var ''n'')))) (SizeofE (Paren (Var ''a'')))) = Inr TSizeT
   \<and> eval demo_env demo_bodies (Div (Not (SizeofE (Paren (Var ''n'')))) (SizeofE (Paren (Var ''a'')))) demo_store
       = Inr (VInt 0, demo_store)
   \<and> compile False cond_tokens = Some cond_expr
   \<and> eval demo_env demo_bodies cond_expr demo_store = Inr (VInt 0, demo_store)
   \<and> compile False negated_plain = Some (Not (Paren cond_expr))
   \<and> eval demo_env demo_bodies (Not (Paren cond_expr)) demo_store = Inr (VInt 1, demo_store)
   \<and> compile True (negated ''ZN_LIKELY'') = Some (Not (ZN_LIKELY True cond_expr))
   \<and> compile True (negated ''ZN_UNLIKELY'') = Some (Not (ZN_UNLIKELY True cond_expr))
   \<and> eval demo_env demo_bodies (Not (ZN_LIKELY True cond_expr)) demo_store = Inr (VInt 1, demo_store)
   \<and> eval demo_env demo_bodies (Not (ZN_UNLIKELY True cond_expr)) demo_store = Inr (VInt 1, demo_store)"
proof -
  have pre: "preprocess False (negated ''ZN_LIKELY'') = Some (TBang # cond_tokens)"
    "preprocess False (negated ''ZN_UNLIKELY'') = Some (TBang # cond_tokens)"
    "preprocess False cond_tokens = Some cond_tokens"
    "preprocess False negated_plain = Some negated_plain"
    by (simp_all add: negated_def negated_plain_def cond_tokens_def macros_def
        ZN_LIKELY_body_def ZN_UNLIKELY_body_def)
  have par: "parse (TBang # cond_tokens) = Some (Div (Not (SizeofE (Paren (Var ''n'')))) (SizeofE (Paren (Var ''a''))))"
    "parse cond_tokens = Some cond_expr"
    "parse negated_plain = Some (Not (Paren cond_expr))"
    by (simp_all add: cond_tokens_def negated_plain_def cond_expr_def parse_eval_simps)
  have gnu: "compile True (negated ''ZN_LIKELY'') = Some (Not (ZN_LIKELY True cond_expr))"
    "compile True (negated ''ZN_UNLIKELY'') = Some (Not (ZN_UNLIKELY True cond_expr))"
    by (simp_all add: negated_def cond_tokens_def cond_expr_def parse_eval_simps
        ZN_LIKELY_def ZN_UNLIKELY_def)
  have ty: "typeof demo_env (Div (Not (SizeofE (Paren (Var ''n'')))) (SizeofE (Paren (Var ''a'')))) = Inr TSizeT"
    using typeof_demo_vars(4,9)
    by (simp add: division_type_def scalar_def integral_def del: typeof.simps(1))
  have ev: "eval demo_env demo_bodies (Div (Not (SizeofE (Paren (Var ''n'')))) (SizeofE (Paren (Var ''a'')))) demo_store
       = Inr (VInt 0, demo_store)"
    "eval demo_env demo_bodies cond_expr demo_store = Inr (VInt 0, demo_store)"
    "eval demo_env demo_bodies (Not (Paren cond_expr)) demo_store = Inr (VInt 1, demo_store)"
    using typeof_demo_vars(4,9)
    by (simp_all add: cond_expr_def demo_sizes of_truth_def del: typeof.simps(1) sizeof.simps)
  have evg: "eval demo_env demo_bodies (Not (ZN_LIKELY True cond_expr)) demo_store = Inr (VInt 1, demo_store)"
    "eval demo_env demo_bodies (Not (ZN_UNLIKELY True cond_expr)) demo_store = Inr (VInt 1, demo_store)"
    using eval_ZN_LIKELY_gnuc [OF wf_demo ev(2), of False] eval_ZN_UNLIKELY_gnuc [OF wf_demo ev(2), of False]
    by (simp_all add: of_truth_def)
  from pre par gnu ty ev evg show ?thesis
    by (simp add: compile_def)
qed

text \<open>
  Claim C5.  On every platform, with \<^verbatim>\<open>__GNUC__\<close> defined or not, an \<^verbatim>\<open>if\<close> on
  \<^verbatim>\<open>ZN_LIKELY(c)\<close> or on \<^verbatim>\<open>ZN_UNLIKELY(c)\<close> runs the branch, returns the value and
  leaves the store that the \<^verbatim>\<open>if\<close> on \<open>c\<close> does (errors included), for every condition
  and every pair of branches; and a program with any choice of hints on the conditions
  of its \<^verbatim>\<open>if\<close> statements behaves as the program without them.  The example returns
  the sentinels 111 and 222.
\<close>

theorem hints_preserve_branching:
  assumes "wf_abi (platform G)"
  shows "exec G F (If (ZN_LIKELY g c) s1 s2) s = exec G F (If c s1 s2) s
       \<and> exec G F (If (ZN_UNLIKELY g c) s1 s2) s = exec G F (If c s1 s2) s
       \<and> exec G F (annotate g h prog) s = exec G F prog s"
  using assms
  by (simp only: exec_If eval_bool_ZN_LIKELY eval_bool_ZN_UNLIKELY exec_annotate simp_thms)

theorem hints_preserve_branching_witness:
  "wf_abi (platform demo_env)
   \<and> exec demo_env demo_bodies
        (If (ZN_LIKELY True (Var ''flag'')) (Return (IntLit 111)) (Return (IntLit 222))) demo_store
       = Inr (Some (VInt 111), demo_store)
   \<and> exec demo_env demo_bodies
        (If (Var ''flag'') (Return (IntLit 111)) (Return (IntLit 222))) demo_store
       = Inr (Some (VInt 111), demo_store)
   \<and> exec demo_env demo_bodies
        (If (ZN_UNLIKELY True (Call ''next'')) (Return (IntLit 111)) (Return (IntLit 222))) demo_store
       = Inr (Some (VInt 222), demo_store(''i'' \<mapsto> VInt 1))
   \<and> exec demo_env demo_bodies
        (If (ZN_LIKELY False (Call ''next'')) (Return (IntLit 111)) (Return (IntLit 222))) demo_store
       = Inr (Some (VInt 222), demo_store(''i'' \<mapsto> VInt 1))"
proof -
  let ?yes = "Return (IntLit 111)" and ?no = "Return (IntLit 222)"
  have flag: "exec demo_env demo_bodies (If (Var ''flag'') ?yes ?no) demo_store
       = Inr (Some (VInt 111), demo_store)"
    by (simp add: demo_store_def)
  have nx: "exec demo_env demo_bodies (If (Call ''next'') ?yes ?no) demo_store
       = Inr (Some (VInt 222), demo_store(''i'' \<mapsto> VInt 1))"
    by (simp add: demo_bodies_def next_body_def demo_store_def)
  note h = hints_preserve_branching [OF wf_demo, of demo_bodies _ _ ?yes ?no demo_store]
  from wf_demo flag nx h [of True "Var ''flag''"] h [of True "Call ''next''"] h [of False "Call ''next''"]
  show ?thesis by simp
qed

text \<open>
  Claim C6.  With \<^verbatim>\<open>__GNUC__\<close> defined, for an expression \<open>x\<close> of scalar type that
  evaluates to the scalar \<open>v\<close>, \<^verbatim>\<open>ZN_LIKELY(x)\<close> and \<^verbatim>\<open>ZN_UNLIKELY(x)\<close> have type
  \<^verbatim>\<open>long\<close> and evaluate as \<^verbatim>\<open>!!(x)\<close> does, to 0 when \<open>v\<close> is zero and to 1 when it
  is not: for an integer \<open>n\<close>, 0 when \<open>n = 0\<close> and 1 otherwise; for a finite floating
  value, 0 when its significand is 0 (either sign) and 1 otherwise; 1 for an infinity
  and for a NaN; 0 for the null pointer and 1 for any other pointer.  So an integer
  other than 0 and 1 comes back as 1 and not as itself, while the result converts to
  the same truth value as \<open>v\<close>.  The example runs 5, 0, -0.0, 0.5, a NaN, a null pointer
  and a pointer to an array.
\<close>

theorem gnuc_hints_normalise:
  assumes "wf_abi (platform G)" and "typeof G x = Inr t" and "scalar t"
    and "eval G F x s = Inr (v, s')" and "scalar_val v"
  shows "typeof G (ZN_LIKELY True x) = Inr TLong
       \<and> typeof G (ZN_UNLIKELY True x) = Inr TLong
       \<and> eval G F (ZN_LIKELY True x) s = eval G F (Not (Not (Paren x))) s
       \<and> eval G F (ZN_UNLIKELY True x) s = eval G F (Not (Not (Paren x))) s
       \<and> (\<forall>n. v = VInt n \<longrightarrow>
            eval G F (ZN_LIKELY True x) s = Inr (VInt (if n = 0 then 0 else 1), s')
          \<and> eval G F (ZN_UNLIKELY True x) s = Inr (VInt (if n = 0 then 0 else 1), s'))
       \<and> (\<forall>sg m ex. v = VFloat (Finite sg m ex) \<longrightarrow>
            eval G F (ZN_LIKELY True x) s = Inr (VInt (if m = 0 then 0 else 1), s')
          \<and> eval G F (ZN_UNLIKELY True x) s = Inr (VInt (if m = 0 then 0 else 1), s'))
       \<and> (\<forall>sg. v = VFloat (Infinity sg) \<longrightarrow>
            eval G F (ZN_LIKELY True x) s = Inr (VInt 1, s')
          \<and> eval G F (ZN_UNLIKELY True x) s = Inr (VInt 1, s'))
       \<and> (v = VFloat NaN \<longrightarrow>
            eval G F (ZN_LIKELY True x) s = Inr (VInt 1, s')
          \<and> eval G F (ZN_UNLIKELY True x) s = Inr (VInt 1, s'))
       \<and> (v = VPtr None \<longrightarrow>
            eval G F (ZN_LIKELY True x) s = Inr (VInt 0, s')
          \<and> eval G F (ZN_UNLIKELY True x) s = Inr (VInt 0, s'))
       \<and> (\<forall>l. v = VPtr (Some l) \<longrightarrow>
            eval G F (ZN_LIKELY True x) s = Inr (VInt 1, s')
          \<and> eval G F (ZN_UNLIKELY True x) s = Inr (VInt 1, s'))
       \<and> (\<forall>n. v = VInt n \<and> n \<noteq> 0 \<and> n \<noteq> 1 \<longrightarrow>
            eval G F (ZN_LIKELY True x) s = Inr (VInt 1, s') \<and> VInt 1 \<noteq> v)
       \<and> (\<forall>r. eval G F (ZN_LIKELY True x) s = Inr (r, s') \<longrightarrow> to_bool r = to_bool v)"
proof -
  let ?L = "eval G F (ZN_LIKELY True x) s" and ?U = "eval G F (ZN_UNLIKELY True x) s"
  let ?b = "to_bool v = Inr True"
  have tb: "to_bool v = Inr ?b"
    using assms(5) by (rule to_bool_scalar)
  have dn: "eval G F (Not (Not (Paren x))) s = Inr (VInt (if ?b then 1 else 0), s')"
    using assms(4) tb by (rule eval_double_negation)
  have l: "?L = eval G F (Not (Not (Paren x))) s"
    using assms(1) by (simp add: ZN_LIKELY_def eval_gnuc_hint_double_negation del: eval.simps)
  have u: "?U = eval G F (Not (Not (Paren x))) s"
    using assms(1) by (simp add: ZN_UNLIKELY_def eval_gnuc_hint_double_negation del: eval.simps)
  have tl: "typeof G (ZN_LIKELY True x) = Inr TLong"
    using assms(1,2,3) by (simp add: ZN_LIKELY_def typeof_gnuc_hint del: typeof.simps)
  have tu: "typeof G (ZN_UNLIKELY True x) = Inr TLong"
    using assms(1,2,3) by (simp add: ZN_UNLIKELY_def typeof_gnuc_hint del: typeof.simps)
  have lv: "?L = Inr (VInt (if ?b then 1 else 0), s')" and uv: "?U = Inr (VInt (if ?b then 1 else 0), s')"
    using l u dn by simp_all
  have ints: "\<forall>n. v = VInt n \<longrightarrow>
            ?L = Inr (VInt (if n = 0 then 0 else 1), s') \<and> ?U = Inr (VInt (if n = 0 then 0 else 1), s')"
    using lv uv by auto
  have fin: "\<forall>sg m ex. v = VFloat (Finite sg m ex) \<longrightarrow>
            ?L = Inr (VInt (if m = 0 then 0 else 1), s') \<and> ?U = Inr (VInt (if m = 0 then 0 else 1), s')"
    using lv uv by auto
  have inf: "\<forall>sg. v = VFloat (Infinity sg) \<longrightarrow> ?L = Inr (VInt 1, s') \<and> ?U = Inr (VInt 1, s')"
    using lv uv by auto
  have nan: "v = VFloat NaN \<longrightarrow> ?L = Inr (VInt 1, s') \<and> ?U = Inr (VInt 1, s')"
    using lv uv by auto
  have null: "v = VPtr None \<longrightarrow> ?L = Inr (VInt 0, s') \<and> ?U = Inr (VInt 0, s')"
    using lv uv by auto
  have ptr: "\<forall>l. v = VPtr (Some l) \<longrightarrow> ?L = Inr (VInt 1, s') \<and> ?U = Inr (VInt 1, s')"
    using lv uv by auto
  have out: "\<forall>n. v = VInt n \<and> n \<noteq> 0 \<and> n \<noteq> 1 \<longrightarrow> ?L = Inr (VInt 1, s') \<and> VInt 1 \<noteq> v"
    using lv by auto
  have again: "\<forall>r. ?L = Inr (r, s') \<longrightarrow> to_bool r = to_bool v"
  proof (intro allI impI)
    fix r assume "?L = Inr (r, s')"
    with lv have "r = VInt (if ?b then 1 else 0)" by simp
    then show "to_bool r = to_bool v"
      using tb by (cases ?b) simp_all
  qed
  show ?thesis
    by (intro conjI) (fact tl tu l u ints fin inf nan null ptr out again)+
qed

theorem gnuc_hints_normalise_witness:
  "wf_abi (platform demo_env)
   \<and> typeof demo_env (ZN_LIKELY True (Var ''n'')) = Inr TLong
   \<and> eval demo_env demo_bodies (Var ''n'') demo_store = Inr (VInt 5, demo_store)
   \<and> eval demo_env demo_bodies (ZN_LIKELY True (Var ''n'')) demo_store = Inr (VInt 1, demo_store)
   \<and> eval demo_env demo_bodies (ZN_UNLIKELY True (Var ''n'')) demo_store = Inr (VInt 1, demo_store)
   \<and> eval demo_env demo_bodies (ZN_LIKELY True (Var ''i'')) demo_store = Inr (VInt 0, demo_store)
   \<and> eval demo_env demo_bodies (ZN_UNLIKELY True (Var ''i'')) demo_store = Inr (VInt 0, demo_store)
   \<and> eval demo_env demo_bodies (ZN_LIKELY True (Var ''negzero'')) demo_store = Inr (VInt 0, demo_store)
   \<and> eval demo_env demo_bodies (ZN_UNLIKELY True (Var ''negzero'')) demo_store = Inr (VInt 0, demo_store)
   \<and> eval demo_env demo_bodies (ZN_LIKELY True (Var ''half'')) demo_store = Inr (VInt 1, demo_store)
   \<and> eval demo_env demo_bodies (ZN_LIKELY True (Var ''nan'')) demo_store = Inr (VInt 1, demo_store)
   \<and> eval demo_env demo_bodies (ZN_LIKELY True (Var ''nullp'')) demo_store = Inr (VInt 0, demo_store)
   \<and> eval demo_env demo_bodies (ZN_UNLIKELY True (Var ''nullp'')) demo_store = Inr (VInt 0, demo_store)
   \<and> eval demo_env demo_bodies (ZN_LIKELY True (Var ''p'')) demo_store = Inr (VInt 1, demo_store)"
proof -
  have sc: "scalar TInt" "scalar TDouble" "scalar (TPtr TInt)"
    by (simp_all add: scalar_def integral_def)
  have ev:
    "eval demo_env demo_bodies (Var ''n'') demo_store = Inr (VInt 5, demo_store)"
    "eval demo_env demo_bodies (Var ''i'') demo_store = Inr (VInt 0, demo_store)"
    "eval demo_env demo_bodies (Var ''negzero'') demo_store = Inr (VFloat (Finite True 0 0), demo_store)"
    "eval demo_env demo_bodies (Var ''half'') demo_store = Inr (VFloat (Finite False 1 (- 1)), demo_store)"
    "eval demo_env demo_bodies (Var ''nan'') demo_store = Inr (VFloat NaN, demo_store)"
    "eval demo_env demo_bodies (Var ''nullp'') demo_store = Inr (VPtr None, demo_store)"
    "eval demo_env demo_bodies (Var ''p'') demo_store = Inr (VPtr (Some (''a'', 0)), demo_store)"
    by (simp_all add: demo_store_def)
  have sv: "scalar_val (VInt k)" "scalar_val (VFloat f)" "scalar_val (VPtr q)" for k f q
    by simp_all
  note n = gnuc_hints_normalise [OF wf_demo typeof_demo_vars(9) sc(1) ev(1) sv(1)]
  note i = gnuc_hints_normalise [OF wf_demo typeof_demo_vars(7) sc(1) ev(2) sv(1)]
  note z = gnuc_hints_normalise [OF wf_demo typeof_demo_vars(11) sc(2) ev(3) sv(2)]
  note h = gnuc_hints_normalise [OF wf_demo typeof_demo_vars(12) sc(2) ev(4) sv(2)]
  note a = gnuc_hints_normalise [OF wf_demo typeof_demo_vars(13) sc(2) ev(5) sv(2)]
  note q = gnuc_hints_normalise [OF wf_demo typeof_demo_vars(10) sc(3) ev(6) sv(3)]
  note p = gnuc_hints_normalise [OF wf_demo typeof_demo_vars(6) sc(3) ev(7) sv(3)]
  from wf_demo ev(1) n i z h a q p show ?thesis
    by (auto simp del: eval.simps typeof.simps)
qed

text \<open>
  Claim C9.  For every \<open>x\<close>, \<^verbatim>\<open>ZN_LIKELY(x)\<close> and \<^verbatim>\<open>ZN_UNLIKELY(x)\<close> evaluate alike
  (value, store and errors) under both definitions.  Without \<^verbatim>\<open>__GNUC__\<close> they are the
  same expression; with it they are \<^verbatim>\<open>__builtin_expect\<close> of the same first operand
  and differ in the second, 1 or 0, only.  On every platform they have the same type.
\<close>

theorem likely_equals_unlikely:
  "eval G F (ZN_LIKELY g x) s = eval G F (ZN_UNLIKELY g x) s
   \<and> ZN_LIKELY False x = ZN_UNLIKELY False x
   \<and> (\<exists>e. ZN_LIKELY True x = BuiltinExpect e (IntLit 1)
          \<and> ZN_UNLIKELY True x = BuiltinExpect e (IntLit 0))
   \<and> (wf_abi (platform G) \<longrightarrow> typeof G (ZN_LIKELY g x) = typeof G (ZN_UNLIKELY g x))"
proof -
  have "eval G F (ZN_LIKELY g x) s = eval G F (ZN_UNLIKELY g x) s"
    unfolding ZN_LIKELY_def ZN_UNLIKELY_def
    using eval_builtin_expect_literal [of G F "Not (Not (Paren x))" 1 s 0] by simp
  moreover have "wf_abi (platform G) \<longrightarrow> typeof G (ZN_LIKELY g x) = typeof G (ZN_UNLIKELY g x)"
    using typeof_builtin_expect_literal [of G "Not (Not (Paren x))"]
    by (simp add: ZN_LIKELY_def ZN_UNLIKELY_def del: typeof.simps)
  ultimately show ?thesis
    by (simp add: ZN_LIKELY_def ZN_UNLIKELY_def)
qed

theorem likely_equals_unlikely_witness:
  "eval demo_env demo_bodies (ZN_LIKELY True (Var ''n'')) demo_store
     = eval demo_env demo_bodies (ZN_UNLIKELY True (Var ''n'')) demo_store
   \<and> eval demo_env demo_bodies (ZN_LIKELY False (Var ''n'')) demo_store
     = eval demo_env demo_bodies (ZN_UNLIKELY False (Var ''n'')) demo_store
   \<and> ZN_LIKELY True (Var ''n'') \<noteq> ZN_UNLIKELY True (Var ''n'')
   \<and> wf_abi (platform demo_env)
   \<and> typeof demo_env (ZN_LIKELY True (Var ''n'')) = typeof demo_env (ZN_UNLIKELY True (Var ''n''))"
proof -
  note r = likely_equals_unlikely [of demo_env demo_bodies _ "Var ''n''" demo_store]
  have "ZN_LIKELY True (Var ''n'') \<noteq> ZN_UNLIKELY True (Var ''n'')"
    by (simp add: ZN_LIKELY_def ZN_UNLIKELY_def)
  with wf_demo r [of True] r [of False] show ?thesis by blast
qed

end
